theory Spec2Isabelle
  imports Main "HOL-Library.Multiset"
begin

section \<open>Data model of the booking reminder cron handler\<close>

text \<open>
  The development embeds \<^verbatim>\<open>apps/web/pages/api/cron/bookingReminder.ts\<close>. A JavaScript
  \<^verbatim>\<open>Date\<close> is its time value, the milliseconds since the Unix epoch; a value that may be
  \<^verbatim>\<open>null\<close> or \<^verbatim>\<open>undefined\<close> is an \<open>option\<close>.
\<close>

type_synonym Date = int

datatype BookingStatus = CANCELLED | ACCEPTED | REJECTED | PENDING

text \<open>
  Modelled from the spec: the enum \<^verbatim>\<open>ReminderType\<close> is declared in the Prisma schema,
  which is not among the sources. The spec describes it as a tag that distinguishes this
  dispatch purpose from other reminder types sharing the same ledger table.
\<close>

datatype ReminderType = PENDING_BOOKING_CONFIRMATION | OTHER_REMINDER

datatype JsonValue =
    JsonNull
  | JsonBool bool
  | JsonNumber int
  | JsonString string
  | JsonArray "JsonValue list"
  | JsonObject "(string \<times> JsonValue) list"

text \<open>
  Modelled from the spec: the model \<^verbatim>\<open>DestinationCalendar\<close> is declared in the Prisma schema,
  which is not among the sources. The spec speaks of an optional destination-calendar
  reference; the handler only passes it on.
\<close>

datatype DestinationCalendar = DestinationCalendar nat

text \<open>
  The records below have the fields the handler reads or writes. The fields \<open>id\<close>,
  \<open>title\<close>, \<open>description\<close>, \<open>customInputs\<close>, \<open>startTime\<close>, \<open>endTime\<close> and \<open>attendees\<close> of
  a booking come with \<^verbatim>\<open>bookingMinimalSelect\<close>, the others are selected by the handler's query;
  \<open>status\<close> and \<open>createdAt\<close> are the columns its \<^verbatim>\<open>where\<close> clause tests. The fields
  \<open>locale'\<close> and, of a request, \<open>method'\<close> are the source's \<^verbatim>\<open>locale\<close> and \<^verbatim>\<open>method\<close>.
\<close>

record Attendee =
  name :: string
  email :: string
  timeZone :: string
  locale' :: "string option"

record User =
  email :: string
  name :: "string option"
  username :: "string option"
  locale' :: "string option"
  timeZone :: string
  destinationCalendar :: "DestinationCalendar option"

record Booking =
  id :: int
  uid :: string
  title :: string
  description :: "string option"
  customInputs :: JsonValue
  startTime :: Date
  endTime :: Date
  attendees :: "Attendee list"
  location :: "string option"
  user :: "User option"
  destinationCalendar :: "DestinationCalendar option"
  status :: BookingStatus
  createdAt :: Date

record ReminderMail =
  referenceId :: int
  reminderType :: ReminderType
  elapsedMinutes :: int

text \<open>
  Modelled from the spec: \<^verbatim>\<open>getTranslation\<close> lives in \<^verbatim>\<open>@server/lib/i18n\<close>, which is not
  among the sources. The spec's Localization Resolver maps a locale tag to a translation
  function; the translation function is represented by the locale and namespace it was
  resolved for.
\<close>

datatype TFunction = TFunction string string

definition getTranslation :: "string \<Rightarrow> string \<Rightarrow> TFunction" where
  "getTranslation lng ns = TFunction lng ns"

record Language =
  translate :: TFunction
  locale' :: string

record Person =
  name :: string
  email :: string
  timeZone :: string
  language :: Language

record CalendarEvent =
  type :: string
  title :: string
  description :: "string option"
  customInputs :: "JsonValue option"
  location :: string
  startTime :: string
  endTime :: string
  organizer :: Person
  attendees :: "Person list"
  uid :: string
  destinationCalendar :: "DestinationCalendar option"

section \<open>JavaScript operators and built-ins used by the handler\<close>

text \<open>Truthiness of a value of type \<^verbatim>\<open>string | null | undefined\<close>.\<close>

definition truthy :: "string option \<Rightarrow> bool" where
  "truthy v = (case v of None \<Rightarrow> False | Some s \<Rightarrow> s \<noteq> [])"

text \<open>\<^verbatim>\<open>a || b\<close> on such values.\<close>

definition or_js :: "string option \<Rightarrow> string option \<Rightarrow> string option" where
  "or_js a b = (if truthy a then a else b)"

text \<open>\<^verbatim>\<open>a ?? b\<close>.\<close>

definition nullish :: "'a option \<Rightarrow> 'a \<Rightarrow> 'a" where
  "nullish a b = (case a of None \<Rightarrow> b | Some x \<Rightarrow> x)"

text \<open>
  Modelled from the spec: \<^verbatim>\<open>isPrismaObjOrUndefined\<close> lives in \<^verbatim>\<open>@calcom/lib\<close>, which is
  not among the sources. The spec: custom inputs are carried "only if they form a well-formed
  key/value structure -- otherwise omitted".
\<close>

definition isPrismaObjOrUndefined :: "JsonValue \<Rightarrow> JsonValue option" where
  "isPrismaObjOrUndefined obj = (case obj of JsonObject kvs \<Rightarrow> Some obj | _ \<Rightarrow> None)"

subsection \<open>\<^verbatim>\<open>Date.prototype.toISOString\<close>\<close>

definition digitChar :: "nat \<Rightarrow> char" where
  "digitChar n = char_of (48 + n)"

fun showNat :: "nat \<Rightarrow> string" where
  "showNat n = (if n < 10 then [digitChar n] else showNat (n div 10) @ [digitChar (n mod 10)])"

declare showNat.simps [simp del]

definition padStart :: "nat \<Rightarrow> char \<Rightarrow> string \<Rightarrow> string" where
  "padStart w c s = replicate (w - length s) c @ s"

definition pad :: "nat \<Rightarrow> int \<Rightarrow> string" where
  "pad w n = padStart w (CHR ''0'') (showNat (nat n))"

text \<open>
  The civil date of a day number (days since 1970-01-01) in the proleptic Gregorian
  calendar. The days are counted from 0000-03-01, the start of a 400-year era in which every
  leap day is the last day of its (March-based) year: centuries of 36524 days (the fourth has
  one more), four-year groups of 1461 days, years of 365 days (the fourth has one more).
  The result is (year, month, day of month).
\<close>

definition civilFromDays :: "int \<Rightarrow> int \<times> int \<times> int" where
  "civilFromDays days =
     (let z = days + 719468;
          era = z div 146097;
          doe = z mod 146097;
          n100 = min 3 (doe div 36524);
          d2 = doe - n100 * 36524;
          n4 = d2 div 1461;
          d3 = d2 mod 1461;
          n1 = min 3 (d3 div 365);
          doy = d3 - n1 * 365;
          yoe = n100 * 100 + n4 * 4 + n1;
          mp = (5 * doy + 2) div 153;
          d = doy - (153 * mp + 2) div 5 + 1;
          m = (if mp < 10 then mp + 3 else mp - 9);
          y = yoe + era * 400 + (if m \<le> 2 then 1 else 0)
      in (y, m, d))"

definition yearString :: "int \<Rightarrow> string" where
  "yearString y =
     (if 0 \<le> y \<and> y \<le> 9999 then pad 4 y
      else (if y < 0 then CHR ''-'' else CHR ''+'') # pad 6 \<bar>y\<bar>)"

definition toISOString :: "Date \<Rightarrow> string" where
  "toISOString t =
     (let days = t div 86400000;
          msOfDay = t mod 86400000;
          (y, m, d) = civilFromDays days;
          hh = msOfDay div 3600000;
          mm = (msOfDay mod 3600000) div 60000;
          ss = (msOfDay mod 60000) div 1000;
          ms = msOfDay mod 1000
      in yearString y @ ''-'' @ pad 2 m @ ''-'' @ pad 2 d @ ''T'' @
         pad 2 hh @ '':'' @ pad 2 mm @ '':'' @ pad 2 ss @ ''.'' @ pad 3 ms @ ''Z'')"

text \<open>
  The shape of an ISO-8601 instant as ECMAScript writes it:
  \<^verbatim>\<open>YYYY-MM-DDTHH:mm:ss.sssZ\<close>, or \<^verbatim>\<open>\<plusminus>YYYYYY-MM-DDTHH:mm:ss.sssZ\<close> for a year outside
  0 to 9999, with every field in its range.
\<close>

definition isDigit :: "char \<Rightarrow> bool" where
  "isDigit c = ((48::nat) \<le> of_char c \<and> (of_char c :: nat) \<le> 57)"

definition digitVal :: "char \<Rightarrow> nat" where
  "digitVal c = of_char c - 48"

definition decimal :: "string \<Rightarrow> nat" where
  "decimal s = foldl (\<lambda>acc c. 10 * acc + digitVal c) 0 s"

definition numIn :: "string \<Rightarrow> nat \<Rightarrow> nat \<Rightarrow> bool" where
  "numIn s lo hi = (list_all isDigit s \<and> lo \<le> decimal s \<and> decimal s \<le> hi)"

definition isISOTail :: "string \<Rightarrow> bool" where
  "isISOTail r =
     (length r = 20 \<and>
      r ! 0 = CHR ''-'' \<and> numIn (take 2 (drop 1 r)) 1 12 \<and>
      r ! 3 = CHR ''-'' \<and> numIn (take 2 (drop 4 r)) 1 31 \<and>
      r ! 6 = CHR ''T'' \<and> numIn (take 2 (drop 7 r)) 0 23 \<and>
      r ! 9 = CHR '':'' \<and> numIn (take 2 (drop 10 r)) 0 59 \<and>
      r ! 12 = CHR '':'' \<and> numIn (take 2 (drop 13 r)) 0 59 \<and>
      r ! 15 = CHR ''.'' \<and> numIn (take 3 (drop 16 r)) 0 999 \<and>
      r ! 19 = CHR ''Z'')"

definition isISO8601 :: "string \<Rightarrow> bool" where
  "isISO8601 s =
     (case s of
        [] \<Rightarrow> False
      | c # cs \<Rightarrow>
          if c = CHR ''+'' \<or> c = CHR ''-''
          then numIn (take 6 cs) 0 999999 \<and> length cs = 26 \<and> isISOTail (drop 6 cs)
          else numIn (take 4 s) 0 9999 \<and> length s = 24 \<and> isISOTail (drop 4 s))"

subsection \<open>\<^verbatim>\<open>Promise.all\<close>\<close>

text \<open>
  \<^verbatim>\<open>Promise.all\<close> stores the value of the promise with index \<open>i\<close> at index \<open>i\<close> of its
  result array, whenever that promise settles, and resolves once none is pending. The order
  in which the pending promises settle is chosen by the event loop: \<open>pick step\<close> selects,
  among those still pending, the one that settles at that step.
\<close>

function settleAll :: "(nat \<Rightarrow> nat) \<Rightarrow> nat \<Rightarrow> (nat \<times> 'a) list \<Rightarrow> 'a option list \<Rightarrow> 'a option list" where
  "settleAll pick step [] values = values"
| "settleAll pick step (p # ps) values =
     (let pending = p # ps;
          k = pick step mod length pending;
          (i, x) = pending ! k
      in settleAll pick (Suc step) (take k pending @ drop (Suc k) pending) (values[i := Some x]))"
  by pat_completeness auto
termination
  by (relation "measure (\<lambda>(pick, step, pending, values). length pending)") auto

definition Promise_all :: "(nat \<Rightarrow> nat) \<Rightarrow> 'a list \<Rightarrow> 'a list" where
  "Promise_all pick promises =
     List.map_filter (\<lambda>v. v)
       (settleAll pick 0 (List.enumerate 0 promises) (replicate (length promises) None))"

section \<open>The world the handler runs in\<close>

text \<open>
  The database tables \<^verbatim>\<open>booking\<close> and \<^verbatim>\<open>reminderMail\<close>, the mails delivered by
  \<^verbatim>\<open>sendOrganizerRequestReminderEmail\<close>, the lines written by \<^verbatim>\<open>console.error\<close> (the booking
  id and the logged user), and how often the clock, the mailer and the insert have been
  called. Of a \<^verbatim>\<open>reminderMail\<close> row only the columns the handler writes are kept.
\<close>

datatype ConsoleLine = MissingRequiredProperties int "User option"

record World =
  booking :: "Booking list"
  reminderMail :: "ReminderMail list"
  outbox :: "CalendarEvent list"
  console :: "ConsoleLine list"
  clockReads :: nat
  sendCalls :: nat
  createCalls :: nat

text \<open>
  What the handler does not decide: the configured secret, the wall-clock time at its
  \<open>k\<close>-th reading, whether the \<open>k\<close>-th call of the mailer and the \<open>k\<close>-th insert succeed
  (otherwise they throw), and the order in which the translator promises of a booking settle.

  Modelled from the spec: \<^verbatim>\<open>sendOrganizerRequestReminderEmail\<close> lives in \<^verbatim>\<open>@calcom/emails\<close>,
  which is not among the sources. The spec's Notification Sender is \<^verbatim>\<open>send(payload) ->
  success|failure\<close>: a successful call delivers the payload (it is appended to \<open>outbox\<close>), a
  failing call throws. Likewise the ledger's \<^verbatim>\<open>record(bookingId, kind, elapsedMinutes) ->
  success|failure\<close> appends the row or throws. The two \<^verbatim>\<open>findMany\<close> queries and the translation
  lookups are taken to succeed.
\<close>

record Env =
  CRON_API_KEY :: "string option"
  now :: "nat \<Rightarrow> Date"
  sendOk :: "nat \<Rightarrow> bool"
  createOk :: "nat \<Rightarrow> bool"
  settleOrder :: "int \<Rightarrow> nat \<Rightarrow> nat"

datatype error = SendFailure | LedgerWriteFailure

datatype QueryValue = QueryString string | QueryArray "string list"

record NextApiRequest =
  method' :: "string option"
  authorization :: "string option"
  apiKey :: "QueryValue option"

datatype Body = Message string | NotificationsSent nat

datatype NextApiResponse = Response nat Body

section \<open>The handler\<close>

text \<open>\<^verbatim>\<open>req.headers.authorization || req.query.apiKey\<close>\<close>

definition requestApiKey :: "NextApiRequest \<Rightarrow> QueryValue option" where
  "requestApiKey req =
     (case authorization req of
        Some h \<Rightarrow> if h \<noteq> [] then Some (QueryString h) else apiKey req
      | None \<Rightarrow> apiKey req)"

text \<open>\<^verbatim>\<open>process.env.CRON_API_KEY !== apiKey\<close>: strict inequality, without conversion.\<close>

definition strictNotEqual :: "string option \<Rightarrow> QueryValue option \<Rightarrow> bool" where
  "strictNotEqual key v =
     (case (key, v) of
        (None, None) \<Rightarrow> False
      | (Some k, Some (QueryString s)) \<Rightarrow> k \<noteq> s
      | _ \<Rightarrow> True)"

definition reminderIntervalMinutes :: "int list" where
  "reminderIntervalMinutes = [48 * 60, 24 * 60, 3 * 60]"

text \<open>\<^verbatim>\<open>dayjs().add(-interval, "minutes").toDate()\<close>, given the reading of the clock.\<close>

definition cutoff :: "Date \<Rightarrow> int \<Rightarrow> Date" where
  "cutoff t interval = t - interval * 60000"

definition findBookings :: "World \<Rightarrow> Date \<Rightarrow> Booking list" where
  "findBookings w c = filter (\<lambda>b. status b = PENDING \<and> createdAt b \<le> c) (booking w)"

definition findReminders :: "World \<Rightarrow> int list \<Rightarrow> int \<Rightarrow> ReminderMail list" where
  "findReminders w ids interval =
     filter (\<lambda>r. reminderType r = PENDING_BOOKING_CONFIRMATION \<and>
                 referenceId r \<in> set ids \<and>
                 interval \<le> elapsedMinutes r)
       (reminderMail w)"

text \<open>\<^verbatim>\<open>bookings.filter((b) => !reminders.some((r) => r.referenceId == b.id))\<close>\<close>

definition candidates :: "Booking list \<Rightarrow> ReminderMail list \<Rightarrow> Booking list" where
  "candidates bookings reminders =
     filter (\<lambda>b. \<not> list_ex (\<lambda>r. referenceId r = Booking.id b) reminders) bookings"

text \<open>\<^verbatim>\<open>user?.name || user?.username\<close>\<close>

definition organizerName :: "User option \<Rightarrow> string option" where
  "organizerName u = or_js (Option.bind u User.name) (Option.bind u User.username)"

text \<open>The negation of \<^verbatim>\<open>!user || !name || !user.timeZone\<close>.\<close>

definition hasRequiredProperties :: "Booking \<Rightarrow> bool" where
  "hasRequiredProperties b =
     (case Booking.user b of
        None \<Rightarrow> False
      | Some u \<Rightarrow> truthy (organizerName (Some u)) \<and> User.timeZone u \<noteq> [])"

definition attendeePerson :: "Attendee \<Rightarrow> Person" where
  "attendeePerson attendee =
     \<lparr> Person.name = Attendee.name attendee,
       Person.email = Attendee.email attendee,
       Person.timeZone = Attendee.timeZone attendee,
       Person.language =
         \<lparr> Language.translate = getTranslation (nullish (Attendee.locale' attendee) ''en'') ''common'',
           Language.locale' = nullish (Attendee.locale' attendee) ''en'' \<rparr> \<rparr>"

definition calendarEvent :: "(nat \<Rightarrow> nat) \<Rightarrow> Booking \<Rightarrow> User \<Rightarrow> string \<Rightarrow> CalendarEvent" where
  "calendarEvent pick b u nm =
     (let tOrganizer = getTranslation (nullish (User.locale' u) ''en'') ''common'';
          attendeesListPromises = map attendeePerson (Booking.attendees b);
          attendeesList = Promise_all pick attendeesListPromises
      in \<lparr> CalendarEvent.type = Booking.title b,
           CalendarEvent.title = Booking.title b,
           CalendarEvent.description =
             (if truthy (Booking.description b) then Booking.description b else None),
           CalendarEvent.customInputs = isPrismaObjOrUndefined (Booking.customInputs b),
           CalendarEvent.location = nullish (Booking.location b) [],
           CalendarEvent.startTime = toISOString (Booking.startTime b),
           CalendarEvent.endTime = toISOString (Booking.endTime b),
           CalendarEvent.organizer =
             \<lparr> Person.name = nm,
               Person.email = User.email u,
               Person.timeZone = User.timeZone u,
               Person.language =
                 \<lparr> Language.translate = tOrganizer,
                   Language.locale' = nullish (User.locale' u) ''en'' \<rparr> \<rparr>,
           CalendarEvent.attendees = attendeesList,
           CalendarEvent.uid = Booking.uid b,
           CalendarEvent.destinationCalendar =
             (case Booking.destinationCalendar b of
                Some c \<Rightarrow> Some c
              | None \<Rightarrow> User.destinationCalendar u) \<rparr>)"

definition reminderRecord :: "int \<Rightarrow> Booking \<Rightarrow> ReminderMail" where
  "reminderRecord interval b =
     \<lparr> referenceId = Booking.id b,
       reminderType = PENDING_BOOKING_CONFIRMATION,
       elapsedMinutes = interval \<rparr>"

text \<open>
  The inner loop over the candidate bookings of one interval. Nothing catches an exception
  of the mailer or of the insert: it leaves the loop and the handler (\<open>Inl\<close>), with the
  world as it is at that moment. Otherwise the loop returns the counter (\<open>Inr\<close>).
\<close>

fun forBookings :: "Env \<Rightarrow> int \<Rightarrow> Booking list \<Rightarrow> World \<Rightarrow> nat \<Rightarrow> (error + nat) \<times> World" where
  "forBookings env interval [] w notificationsSent = (Inr notificationsSent, w)"
| "forBookings env interval (b # bs) w notificationsSent =
     (case Booking.user b of
        None \<Rightarrow>
          forBookings env interval bs
            (w\<lparr>console := console w @ [MissingRequiredProperties (Booking.id b) None]\<rparr>)
            notificationsSent
      | Some u \<Rightarrow>
          (case organizerName (Some u) of
             None \<Rightarrow>
               forBookings env interval bs
                 (w\<lparr>console := console w @ [MissingRequiredProperties (Booking.id b) (Some u)]\<rparr>)
                 notificationsSent
           | Some nm \<Rightarrow>
               if nm = [] \<or> User.timeZone u = [] then
                 forBookings env interval bs
                   (w\<lparr>console := console w @ [MissingRequiredProperties (Booking.id b) (Some u)]\<rparr>)
                   notificationsSent
               else
                 (let evt = calendarEvent (settleOrder env (Booking.id b)) b u nm;
                      w1 = w\<lparr>sendCalls := Suc (sendCalls w)\<rparr>
                  in if \<not> sendOk env (sendCalls w) then (Inl SendFailure, w1)
                     else
                       (let w2 = w1\<lparr>outbox := outbox w1 @ [evt]\<rparr>;
                            w3 = w2\<lparr>createCalls := Suc (createCalls w2)\<rparr>
                        in if \<not> createOk env (createCalls w2) then (Inl LedgerWriteFailure, w3)
                           else
                             forBookings env interval bs
                               (w3\<lparr>reminderMail := reminderMail w3 @ [reminderRecord interval b]\<rparr>)
                               (Suc notificationsSent)))))"

text \<open>The body of the outer loop for one interval: the two queries, then the inner loop.\<close>

definition forInterval :: "Env \<Rightarrow> int \<Rightarrow> World \<Rightarrow> nat \<Rightarrow> (error + nat) \<times> World" where
  "forInterval env interval w notificationsSent =
     (let t = now env (clockReads w);
          w0 = w\<lparr>clockReads := Suc (clockReads w)\<rparr>;
          bookings = findBookings w0 (cutoff t interval);
          reminders = findReminders w0 (map Booking.id bookings) interval
      in forBookings env interval (candidates bookings reminders) w0 notificationsSent)"

fun forIntervals :: "Env \<Rightarrow> int list \<Rightarrow> World \<Rightarrow> nat \<Rightarrow> (error + nat) \<times> World" where
  "forIntervals env [] w notificationsSent = (Inr notificationsSent, w)"
| "forIntervals env (interval # rest) w notificationsSent =
     (case forInterval env interval w notificationsSent of
        (Inl e, w') \<Rightarrow> (Inl e, w')
      | (Inr n, w') \<Rightarrow> forIntervals env rest w' n)"

definition handler :: "Env \<Rightarrow> NextApiRequest \<Rightarrow> World \<Rightarrow> (error + NextApiResponse) \<times> World" where
  "handler env req w =
     (if strictNotEqual (CRON_API_KEY env) (requestApiKey req)
      then (Inr (Response 401 (Message ''Not authenticated'')), w)
      else if method' req \<noteq> Some ''POST''
      then (Inr (Response 405 (Message ''Invalid method'')), w)
      else
        (case forIntervals env reminderIntervalMinutes w 0 of
           (Inl e, w') \<Rightarrow> (Inl e, w')
         | (Inr notificationsSent, w') \<Rightarrow>
             (Inr (Response 200 (NotificationsSent notificationsSent)), w')))"

section \<open>Notions used to state the properties\<close>

text \<open>
  The payload the handler composes for a booking, if the booking passes the check of the
  organizer's properties: the three log-and-continue branches of \<open>forBookings\<close> give
  \<open>None\<close>, the last branch gives its \<open>evt\<close>.
\<close>

definition bookingEvent :: "Env \<Rightarrow> Booking \<Rightarrow> CalendarEvent option" where
  "bookingEvent env b =
     (case Booking.user b of
        None \<Rightarrow> None
      | Some u \<Rightarrow>
          (case organizerName (Some u) of
             None \<Rightarrow> None
           | Some nm \<Rightarrow>
               if nm = [] \<or> User.timeZone u = [] then None
               else Some (calendarEvent (settleOrder env (Booking.id b)) b u nm)))"

text \<open>
  The ledger holds a reminder of kind \<open>PENDING_BOOKING_CONFIRMATION\<close> for booking \<open>i\<close>
  with at least \<open>interval\<close> elapsed minutes.
\<close>

definition hasReminder :: "ReminderMail list \<Rightarrow> int \<Rightarrow> int \<Rightarrow> bool" where
  "hasReminder ledger i interval =
     list_ex (\<lambda>r. reminderType r = PENDING_BOOKING_CONFIRMATION \<and> referenceId r = i \<and>
                  interval \<le> elapsedMinutes r) ledger"

text \<open>The bookings the inner loop of one interval runs over, when the clock reads \<open>t\<close>.\<close>

definition pending :: "World \<Rightarrow> Date \<Rightarrow> int \<Rightarrow> Booking list" where
  "pending w t interval =
     candidates (findBookings w (cutoff t interval))
       (findReminders w (map Booking.id (findBookings w (cutoff t interval))) interval)"

text \<open>
  Every pending booking old enough for \<open>interval\<close> that passes the organizer check already
  has its reminder.
\<close>

definition settled :: "World \<Rightarrow> Date \<Rightarrow> int \<Rightarrow> bool" where
  "settled w t interval =
     (\<forall>b \<in> set (booking w).
        status b = PENDING \<and> createdAt b \<le> cutoff t interval \<and> hasRequiredProperties b \<longrightarrow>
        hasReminder (reminderMail w) (Booking.id b) interval)"

text \<open>
  The bookings that some interval of \<open>ts\<close> selects from the world as it is: pending, with
  the organizer's properties, old enough for the interval and without a reminder for it.
\<close>

definition due :: "World \<Rightarrow> Date \<Rightarrow> int list \<Rightarrow> Booking set" where
  "due w t ts =
     {b \<in> set (booking w). status b = PENDING \<and> hasRequiredProperties b \<and>
        (\<exists>interval \<in> set ts. createdAt b \<le> cutoff t interval \<and>
           \<not> hasReminder (reminderMail w) (Booking.id b) interval)}"

section \<open>Example worlds\<close>

text \<open>
  The scenarios of the specification: bookings created at the epoch, the clock at 3000
  minutes (50 hours) after it; an organizer "Jane" in time zone UTC, and one without a name.
\<close>

definition jane :: User where
  "jane = \<lparr> User.email = ''jane@example.com'', User.name = Some ''Jane'',
            User.username = None, User.locale' = None, User.timeZone = ''UTC'',
            User.destinationCalendar = None \<rparr>"

definition nameless :: User where
  "nameless = \<lparr> User.email = ''anon@example.com'', User.name = None,
                User.username = Some [], User.locale' = Some ''fr'', User.timeZone = ''UTC'',
                User.destinationCalendar = None \<rparr>"

definition guests :: "Attendee list" where
  "guests =
     [\<lparr> Attendee.name = ''Ann'', Attendee.email = ''ann@example.com'',
        Attendee.timeZone = ''UTC'', Attendee.locale' = Some ''en'' \<rparr>,
      \<lparr> Attendee.name = ''Bea'', Attendee.email = ''bea@example.com'',
        Attendee.timeZone = ''Europe/Paris'', Attendee.locale' = Some ''fr'' \<rparr>,
      \<lparr> Attendee.name = ''Cruz'', Attendee.email = ''cruz@example.com'',
        Attendee.timeZone = ''Europe/Madrid'', Attendee.locale' = Some ''es'' \<rparr>,
      \<lparr> Attendee.name = ''Dee'', Attendee.email = ''dee@example.com'',
        Attendee.timeZone = ''UTC'', Attendee.locale' = None \<rparr>]"

definition bookingOf :: "int \<Rightarrow> string \<Rightarrow> User option \<Rightarrow> Booking" where
  "bookingOf i u org =
     \<lparr> Booking.id = i, Booking.uid = u, Booking.title = ''Intro call'',
       Booking.description = None,
       Booking.customInputs = JsonObject [(''topic'', JsonString ''pricing'')],
       Booking.startTime = 1667347200123, Booking.endTime = 1667349000123,
       Booking.attendees = guests, Booking.location = None, Booking.user = org,
       Booking.destinationCalendar = None, Booking.status = PENDING, Booking.createdAt = 0 \<rparr>"

definition worldOf :: "Booking list \<Rightarrow> ReminderMail list \<Rightarrow> World" where
  "worldOf bs ledger =
     \<lparr> booking = bs, reminderMail = ledger, outbox = [], console = [],
       clockReads = 0, sendCalls = 0, createCalls = 0 \<rparr>"

definition always :: "nat \<Rightarrow> bool" where
  "always k = True"

definition notFirst :: "nat \<Rightarrow> bool" where
  "notFirst k = (k \<noteq> 0)"

definition lastFirst :: "int \<Rightarrow> nat \<Rightarrow> nat" where
  "lastFirst i step = step + 2"

definition fiftyHours :: "nat \<Rightarrow> Date" where
  "fiftyHours k = 180000000"

definition envOf :: "string option \<Rightarrow> (nat \<Rightarrow> bool) \<Rightarrow> (nat \<Rightarrow> bool) \<Rightarrow> Env" where
  "envOf key mailer ins =
     \<lparr> CRON_API_KEY = key, now = fiftyHours, sendOk = mailer, createOk = ins,
       settleOrder = lastFirst \<rparr>"

definition requestOf :: "string \<Rightarrow> string option \<Rightarrow> NextApiRequest" where
  "requestOf m key = \<lparr> method' = Some m, authorization = key, apiKey = None \<rparr>"

section \<open>Lemmas: the inner loop\<close>

lemma bookingEvent_None_iff: "bookingEvent env b = None \<longleftrightarrow> \<not> hasRequiredProperties b"
  by (auto simp: bookingEvent_def hasRequiredProperties_def truthy_def split: option.splits)

lemma forBookings_skip:
  "\<not> hasRequiredProperties b \<Longrightarrow>
   forBookings env interval (b # bs) w n =
   forBookings env interval bs
     (w\<lparr>console := console w @ [MissingRequiredProperties (Booking.id b) (Booking.user b)]\<rparr>) n"
  by (auto simp: hasRequiredProperties_def truthy_def split: option.splits)

lemma forBookings_send:
  "bookingEvent env b = Some evt \<Longrightarrow>
   forBookings env interval (b # bs) w n =
     (if \<not> sendOk env (sendCalls w) then (Inl SendFailure, w\<lparr>sendCalls := Suc (sendCalls w)\<rparr>)
      else if \<not> createOk env (createCalls w)
      then (Inl LedgerWriteFailure,
            w\<lparr>sendCalls := Suc (sendCalls w), outbox := outbox w @ [evt],
              createCalls := Suc (createCalls w)\<rparr>)
      else forBookings env interval bs
             (w\<lparr>sendCalls := Suc (sendCalls w), outbox := outbox w @ [evt],
               createCalls := Suc (createCalls w),
               reminderMail := reminderMail w @ [reminderRecord interval b]\<rparr>) (Suc n))"
  by (auto simp: bookingEvent_def Let_def split: option.splits if_splits)

lemma uid_bookingEvent: "bookingEvent env b = Some evt \<Longrightarrow> CalendarEvent.uid evt = Booking.uid b"
  by (auto simp: bookingEvent_def calendarEvent_def Let_def split: option.splits if_splits)

lemma forBookings_frame:
  "forBookings env interval bs w n = (r, w') \<Longrightarrow>
   booking w' = booking w \<and> clockReads w' = clockReads w"
proof (induction bs arbitrary: w n)
  case Nil
  then show ?case by simp
next
  case (Cons b bs)
  show ?case
  proof (cases "bookingEvent env b")
    case None
    then have nv: "\<not> hasRequiredProperties b" by (simp add: bookingEvent_None_iff)
    from Cons.prems have "forBookings env interval bs
       (w\<lparr>console := console w @ [MissingRequiredProperties (Booking.id b) (Booking.user b)]\<rparr>) n = (r, w')"
      by (simp only: forBookings_skip [OF nv])
    from Cons.IH [OF this] show ?thesis by simp
  next
    case (Some evt)
    with Cons.prems Cons.IH show ?thesis
      by (fastforce simp: forBookings_send simp del: forBookings.simps split: if_splits)
  qed
qed

lemma forBookings_outbox:
  "forBookings env interval bs w n = (r, w') \<Longrightarrow>
   \<exists>j. outbox w' = outbox w @ List.map_filter (bookingEvent env) (take j bs)"
proof (induction bs arbitrary: w n)
  case Nil
  then show ?case by (simp add: List.map_filter_simps)
next
  case (Cons b bs)
  show ?case
  proof (cases "bookingEvent env b")
    case None
    then have nv: "\<not> hasRequiredProperties b" by (simp add: bookingEvent_None_iff)
    from Cons.prems have "forBookings env interval bs
       (w\<lparr>console := console w @ [MissingRequiredProperties (Booking.id b) (Booking.user b)]\<rparr>) n = (r, w')"
      by (simp only: forBookings_skip [OF nv])
    from Cons.IH [OF this] obtain j where
      "outbox w' = outbox w @ List.map_filter (bookingEvent env) (take j bs)" by auto
    then have "outbox w' = outbox w @ List.map_filter (bookingEvent env) (take (Suc j) (b # bs))"
      using None by (simp add: List.map_filter_simps)
    then show ?thesis by blast
  next
    case (Some evt)
    note step = forBookings_send [OF Some, of interval bs w n]
    show ?thesis
    proof (cases "sendOk env (sendCalls w)")
      case False
      with Cons.prems step have "outbox w' = outbox w" by auto
      then have "outbox w' = outbox w @ List.map_filter (bookingEvent env) (take 0 (b # bs))"
        by (simp add: List.map_filter_simps)
      then show ?thesis by blast
    next
      case True
      show ?thesis
      proof (cases "createOk env (createCalls w)")
        case False
        with True Cons.prems step have "outbox w' = outbox w @ [evt]" by auto
        then have "outbox w' = outbox w @ List.map_filter (bookingEvent env) (take 1 (b # bs))"
          using Some by (simp add: List.map_filter_simps)
        then show ?thesis by blast
      next
        case False': True
        from True False' Cons.prems step have "forBookings env interval bs
             (w\<lparr>sendCalls := Suc (sendCalls w), outbox := outbox w @ [evt],
               createCalls := Suc (createCalls w),
               reminderMail := reminderMail w @ [reminderRecord interval b]\<rparr>) (Suc n) = (r, w')"
          by simp
        from Cons.IH [OF this] obtain j where
          "outbox w' = (outbox w @ [evt]) @ List.map_filter (bookingEvent env) (take j bs)" by auto
        then have "outbox w' = outbox w @ List.map_filter (bookingEvent env) (take (Suc j) (b # bs))"
          using Some by (simp add: List.map_filter_simps)
        then show ?thesis by blast
      qed
    qed
  qed
qed

lemma forBookings_ledger:
  "forBookings env interval bs w n = (r, w') \<Longrightarrow>
   \<exists>k. reminderMail w' =
        reminderMail w @ map (reminderRecord interval) (filter hasRequiredProperties (take k bs))"
proof (induction bs arbitrary: w n)
  case Nil
  then show ?case by simp
next
  case (Cons b bs)
  show ?case
  proof (cases "bookingEvent env b")
    case None
    then have nv: "\<not> hasRequiredProperties b" by (simp add: bookingEvent_None_iff)
    from Cons.prems have "forBookings env interval bs
       (w\<lparr>console := console w @ [MissingRequiredProperties (Booking.id b) (Booking.user b)]\<rparr>) n = (r, w')"
      by (simp only: forBookings_skip [OF nv])
    from Cons.IH [OF this] obtain k where
      "reminderMail w' = reminderMail w @
         map (reminderRecord interval) (filter hasRequiredProperties (take k bs))" by auto
    then have "reminderMail w' = reminderMail w @
         map (reminderRecord interval) (filter hasRequiredProperties (take (Suc k) (b # bs)))"
      using nv by simp
    then show ?thesis by blast
  next
    case (Some evt)
    then have v: "hasRequiredProperties b" using bookingEvent_None_iff [of env b] by simp
    note step = forBookings_send [OF Some, of interval bs w n]
    show ?thesis
    proof (cases "sendOk env (sendCalls w) \<and> createOk env (createCalls w)")
      case False
      with Cons.prems step have "reminderMail w' = reminderMail w" by (auto split: if_splits)
      then have "reminderMail w' = reminderMail w @
         map (reminderRecord interval) (filter hasRequiredProperties (take 0 (b # bs)))"
        by simp
      then show ?thesis by blast
    next
      case True
      with Cons.prems step have "forBookings env interval bs
             (w\<lparr>sendCalls := Suc (sendCalls w), outbox := outbox w @ [evt],
               createCalls := Suc (createCalls w),
               reminderMail := reminderMail w @ [reminderRecord interval b]\<rparr>) (Suc n) = (r, w')"
        by simp
      from Cons.IH [OF this] obtain k where
        "reminderMail w' = (reminderMail w @ [reminderRecord interval b]) @
           map (reminderRecord interval) (filter hasRequiredProperties (take k bs))" by auto
      then have "reminderMail w' = reminderMail w @
           map (reminderRecord interval) (filter hasRequiredProperties (take (Suc k) (b # bs)))"
        using v by simp
      then show ?thesis by blast
    qed
  qed
qed

lemma forBookings_Inr:
  "forBookings env interval bs w n = (Inr m, w') \<Longrightarrow>
   m = n + length (filter hasRequiredProperties bs) \<and>
   outbox w' = outbox w @ List.map_filter (bookingEvent env) bs \<and>
   reminderMail w' =
     reminderMail w @ map (reminderRecord interval) (filter hasRequiredProperties bs)"
proof (induction bs arbitrary: w n)
  case Nil
  then show ?case by (simp add: List.map_filter_simps)
next
  case (Cons b bs)
  show ?case
  proof (cases "bookingEvent env b")
    case None
    then have nv: "\<not> hasRequiredProperties b" by (simp add: bookingEvent_None_iff)
    from Cons.prems have "forBookings env interval bs
       (w\<lparr>console := console w @ [MissingRequiredProperties (Booking.id b) (Booking.user b)]\<rparr>) n = (Inr m, w')"
      by (simp only: forBookings_skip [OF nv])
    from Cons.IH [OF this] show ?thesis
      using nv None by (simp add: List.map_filter_simps)
  next
    case (Some evt)
    then have v: "hasRequiredProperties b" using bookingEvent_None_iff [of env b] by simp
    note step = forBookings_send [OF Some, of interval bs w n]
    from Cons.prems step have "forBookings env interval bs
             (w\<lparr>sendCalls := Suc (sendCalls w), outbox := outbox w @ [evt],
               createCalls := Suc (createCalls w),
               reminderMail := reminderMail w @ [reminderRecord interval b]\<rparr>) (Suc n) = (Inr m, w')"
      by (auto split: if_splits)
    from Cons.IH [OF this] show ?thesis
      using v Some by (simp add: List.map_filter_simps)
  qed
qed

lemma forBookings_total:
  "\<forall>k. sendOk env k \<and> createOk env k \<Longrightarrow> \<exists>m w'. forBookings env interval bs w n = (Inr m, w')"
proof (induction bs arbitrary: w n)
  case Nil
  then show ?case by simp
next
  case (Cons b bs)
  show ?case
  proof (cases "bookingEvent env b")
    case None
    then have nv: "\<not> hasRequiredProperties b" by (simp add: bookingEvent_None_iff)
    show ?thesis using Cons.IH [OF Cons.prems] by (simp only: forBookings_skip [OF nv])
  next
    case (Some evt)
    show ?thesis using Cons.IH [OF Cons.prems] Cons.prems
      by (simp add: forBookings_send [OF Some] del: forBookings.simps)
  qed
qed

lemma forBookings_all_skipped:
  "\<forall>b \<in> set bs. \<not> hasRequiredProperties b \<Longrightarrow>
   forBookings env interval bs w n =
     (Inr n, w\<lparr>console := console w @
                 map (\<lambda>b. MissingRequiredProperties (Booking.id b) (Booking.user b)) bs\<rparr>)"
proof (induction bs arbitrary: w)
  case Nil
  then show ?case by simp
next
  case (Cons b bs)
  then have nv: "\<not> hasRequiredProperties b" by simp
  from Cons show ?case by (simp add: forBookings_skip [OF nv] del: forBookings.simps)
qed

lemma set_pending:
  "set (pending w t interval) =
     {b \<in> set (booking w). status b = PENDING \<and> createdAt b \<le> cutoff t interval \<and>
        \<not> hasReminder (reminderMail w) (Booking.id b) interval}"
  by (auto simp: pending_def candidates_def findBookings_def findReminders_def hasReminder_def
      list_ex_iff)

lemma pending_cong:
  "booking w' = booking w \<Longrightarrow> reminderMail w' = reminderMail w \<Longrightarrow>
   pending w' t interval = pending w t interval"
  by (simp add: pending_def findBookings_def findReminders_def)

lemma forInterval_pending:
  "forInterval env interval w n =
     forBookings env interval (pending w (now env (clockReads w)) interval)
       (w\<lparr>clockReads := Suc (clockReads w)\<rparr>) n"
  by (simp add: forInterval_def Let_def pending_def findBookings_def findReminders_def)

lemma hasReminder_append:
  "hasReminder (xs @ ys) i interval \<longleftrightarrow> hasReminder xs i interval \<or> hasReminder ys i interval"
  by (auto simp: hasReminder_def list_ex_iff)

lemma hasReminder_records:
  "hasReminder (map (reminderRecord interval) bs) i interval' \<longleftrightarrow>
   (\<exists>b \<in> set bs. Booking.id b = i) \<and> interval' \<le> interval"
  by (auto simp: hasReminder_def list_ex_iff reminderRecord_def)

lemma forInterval_frame:
  assumes "forInterval env interval w n = (r, w')"
  shows "booking w' = booking w" and "clockReads w' = Suc (clockReads w)"
    and "\<exists>new. reminderMail w' = reminderMail w @ new"
proof -
  note run = assms [unfolded forInterval_pending]
  from forBookings_frame [OF run] show "booking w' = booking w"
    and "clockReads w' = Suc (clockReads w)" by simp_all
  from forBookings_ledger [OF run] show "\<exists>new. reminderMail w' = reminderMail w @ new"
    by auto
qed

lemma forIntervals_frame:
  "forIntervals env ts w n = (r, w') \<Longrightarrow>
   booking w' = booking w \<and> (\<exists>new. reminderMail w' = reminderMail w @ new)"
proof (induction ts arbitrary: w n)
  case Nil
  then show ?case by simp
next
  case (Cons interval ts)
  obtain r1 w1 where pass: "forInterval env interval w n = (r1, w1)"
    by (cases "forInterval env interval w n")
  note f = forInterval_frame [OF pass]
  show ?case
  proof (cases r1)
    case (Inl e)
    with Cons.prems pass have "w' = w1" by simp
    with f show ?thesis by simp
  next
    case (Inr n1)
    with Cons.prems pass have "forIntervals env ts w1 n1 = (r, w')" by simp
    from Cons.IH [OF this] f show ?thesis by auto
  qed
qed

lemma settled_mono:
  "booking w' = booking w \<Longrightarrow> reminderMail w' = reminderMail w @ new \<Longrightarrow>
   settled w t interval \<Longrightarrow> settled w' t interval"
  by (simp add: settled_def hasReminder_append)

lemma forInterval_settles:
  assumes "forInterval env interval w n = (Inr m, w')"
  shows "settled w' (now env (clockReads w)) interval"
proof -
  let ?t = "now env (clockReads w)"
  note run = assms [unfolded forInterval_pending]
  from forBookings_frame [OF run] have bk: "booking w' = booking w" by simp
  from forBookings_Inr [OF run] have led: "reminderMail w' =
    reminderMail w @ map (reminderRecord interval) (filter hasRequiredProperties (pending w ?t interval))"
    by simp
  show ?thesis
    unfolding settled_def
  proof (intro ballI impI)
    fix b
    assume b: "b \<in> set (booking w')"
      and p: "status b = PENDING \<and> createdAt b \<le> cutoff ?t interval \<and> hasRequiredProperties b"
    show "hasReminder (reminderMail w') (Booking.id b) interval"
    proof (cases "hasReminder (reminderMail w) (Booking.id b) interval")
      case True
      then show ?thesis by (simp add: led hasReminder_append)
    next
      case False
      with b p bk have "b \<in> set (pending w ?t interval)" by (simp add: set_pending)
      with p have "b \<in> set (filter hasRequiredProperties (pending w ?t interval))" by simp
      then show ?thesis unfolding led hasReminder_append hasReminder_records by blast
    qed
  qed
qed

lemma forIntervals_settles:
  "forIntervals env ts w n = (Inr m, w') \<Longrightarrow> \<forall>k. now env k = t \<Longrightarrow>
   \<forall>interval \<in> set ts. settled w' t interval"
proof (induction ts arbitrary: w n)
  case Nil
  then show ?case by simp
next
  case (Cons interval ts)
  obtain r1 w1 where pass: "forInterval env interval w n = (r1, w1)"
    by (cases "forInterval env interval w n")
  with Cons.prems(1) obtain n1 where r1: "r1 = Inr n1"
    by (cases r1) auto
  with Cons.prems(1) pass have rest: "forIntervals env ts w1 n1 = (Inr m, w')" by simp
  from forInterval_settles [OF pass [unfolded r1]] Cons.prems(2)
  have "settled w1 t interval" by simp
  moreover from forIntervals_frame [OF rest] obtain new where
    "booking w' = booking w1" "reminderMail w' = reminderMail w1 @ new" by auto
  ultimately have "settled w' t interval" by (rule settled_mono [rotated 2])
  with Cons.IH [OF rest Cons.prems(2)] show ?case by simp
qed

lemma forInterval_settled:
  assumes "settled w (now env (clockReads w)) interval"
  shows "forInterval env interval w n =
     (Inr n, w\<lparr>clockReads := Suc (clockReads w),
               console := console w @
                 map (\<lambda>b. MissingRequiredProperties (Booking.id b) (Booking.user b))
                   (pending w (now env (clockReads w)) interval)\<rparr>)"
proof -
  have "\<forall>b \<in> set (pending w (now env (clockReads w)) interval). \<not> hasRequiredProperties b"
    using assms by (auto simp: set_pending settled_def)
  from forBookings_all_skipped [OF this] show ?thesis
    by (simp add: forInterval_pending)
qed

lemma forIntervals_settled:
  "\<forall>k. now env k = t \<Longrightarrow> \<forall>interval \<in> set ts. settled w t interval \<Longrightarrow>
   \<exists>w'. forIntervals env ts w n = (Inr n, w') \<and> reminderMail w' = reminderMail w \<and>
        outbox w' = outbox w \<and> booking w' = booking w \<and>
        sendCalls w' = sendCalls w \<and> createCalls w' = createCalls w"
proof (induction ts arbitrary: w)
  case Nil
  then show ?case by simp
next
  case (Cons interval ts)
  let ?w1 = "w\<lparr>clockReads := Suc (clockReads w),
               console := console w @
                 map (\<lambda>b. MissingRequiredProperties (Booking.id b) (Booking.user b))
                   (pending w (now env (clockReads w)) interval)\<rparr>"
  from Cons.prems have "settled w (now env (clockReads w)) interval" by simp
  from forInterval_settled [OF this]
  have pass: "forInterval env interval w n = (Inr n, ?w1)" .
  have "\<forall>i \<in> set ts. settled ?w1 t i"
    using Cons.prems(2) by (simp add: settled_def)
  from Cons.IH [OF Cons.prems(1) this] obtain w' where
    "forIntervals env ts ?w1 n = (Inr n, w')" "reminderMail w' = reminderMail w"
    "outbox w' = outbox w" "booking w' = booking w"
    "sendCalls w' = sendCalls w" "createCalls w' = createCalls w" by auto
  with pass show ?case by simp
qed

lemma map_filter_append:
  "List.map_filter f (xs @ ys) = List.map_filter f xs @ List.map_filter f ys"
  by (simp add: List.map_filter_def)

lemma bookingEvent_Some_valid: "bookingEvent env b = Some evt \<Longrightarrow> hasRequiredProperties b"
  using bookingEvent_None_iff [of env b] by simp

lemma events_filter:
  "List.map_filter (bookingEvent env) (filter hasRequiredProperties bs) =
   List.map_filter (bookingEvent env) bs"
  by (induction bs) (auto simp: bookingEvent_None_iff split: option.splits dest: bookingEvent_Some_valid)

lemma uid_events:
  "map CalendarEvent.uid (List.map_filter (bookingEvent env) bs) =
   map Booking.uid (filter hasRequiredProperties bs)"
  by (induction bs)
    (auto simp: bookingEvent_None_iff uid_bookingEvent split: option.splits dest: bookingEvent_Some_valid)

lemma distinct_uid_pending:
  "distinct (map Booking.uid (booking w)) \<Longrightarrow> distinct (map Booking.uid (pending w t interval))"
  by (simp add: pending_def candidates_def findBookings_def distinct_map_filter)


section \<open>Lemmas: at most one notification per booking\<close>

lemma forIntervals_sent:
  "forIntervals env ts w n = (r, w') \<Longrightarrow> sorted_wrt (\<ge>) ts \<Longrightarrow>
   distinct (map Booking.uid (booking w)) \<Longrightarrow>
   \<exists>sent. outbox w' = outbox w @ List.map_filter (bookingEvent env) sent \<and>
          distinct (map Booking.uid sent) \<and> set sent \<subseteq> set (booking w) \<and>
          (\<forall>b \<in> set sent. hasRequiredProperties b \<and>
             (\<exists>interval \<in> set ts. \<not> hasReminder (reminderMail w) (Booking.id b) interval))"
proof (induction ts arbitrary: w n)
  case Nil
  then have "outbox w' = outbox w @ List.map_filter (bookingEvent env) []" by simp
  then show ?case by (intro exI [of _ "[]"]) simp
next
  case (Cons interval ts)
  let ?t = "now env (clockReads w)"
  let ?cands = "pending w ?t interval"
  obtain r1 w1 where pass: "forInterval env interval w n = (r1, w1)"
    by (cases "forInterval env interval w n")
  note run = pass [unfolded forInterval_pending]
  note f = forInterval_frame [OF pass]
  from forBookings_outbox [OF run] obtain j where
    out1: "outbox w1 = outbox w @ List.map_filter (bookingEvent env) (take j ?cands)" by auto
  let ?s1 = "filter hasRequiredProperties (take j ?cands)"
  have out1': "outbox w1 = outbox w @ List.map_filter (bookingEvent env) ?s1"
    by (simp add: out1 events_filter)
  have "distinct (take j (map Booking.uid ?cands))"
    using distinct_uid_pending [OF Cons.prems(3), of ?t interval] by (rule distinct_take)
  then have "distinct (map Booking.uid (take j ?cands))" by (simp only: take_map)
  then have d1: "distinct (map Booking.uid ?s1)" by (rule distinct_map_filter)
  have sub1: "set ?s1 \<subseteq> set ?cands" by (auto dest: in_set_takeD)
  then have in1: "set ?s1 \<subseteq> set (booking w)" by (auto simp: set_pending)
  have p1: "\<forall>b \<in> set ?s1. hasRequiredProperties b \<and>
              \<not> hasReminder (reminderMail w) (Booking.id b) interval"
    using sub1 by (auto simp: set_pending)
  show ?case
  proof (cases r1)
    case (Inl e)
    with Cons.prems(1) pass have "w' = w1" by simp
    have p1': "\<forall>b \<in> set ?s1. hasRequiredProperties b \<and>
              (\<exists>i \<in> set (interval # ts). \<not> hasReminder (reminderMail w) (Booking.id b) i)"
      using p1 by simp
    show ?thesis
      unfolding \<open>w' = w1\<close>
      by (rule exI [of _ ?s1]) (intro conjI out1' d1 in1 p1')
  next
    case (Inr n1)
    with Cons.prems(1) pass have rest: "forIntervals env ts w1 n1 = (r, w')" by simp
    from forBookings_Inr [OF run [unfolded Inr]]
    have led: "reminderMail w1 = reminderMail w @
        map (reminderRecord interval) (filter hasRequiredProperties ?cands)"
      and out_all: "outbox w1 = outbox w @ List.map_filter (bookingEvent env) ?cands"
      by simp_all
    from Cons.prems(2) have sorted: "sorted_wrt (\<ge>) ts" and le: "\<forall>i \<in> set ts. i \<le> interval"
      by auto
    from Cons.prems(3) f(1) have "distinct (map Booking.uid (booking w1))" by simp
    from Cons.IH [OF rest sorted this] obtain sent2 where
      out2: "outbox w' = outbox w1 @ List.map_filter (bookingEvent env) sent2"
      and d2: "distinct (map Booking.uid sent2)"
      and in2: "set sent2 \<subseteq> set (booking w1)"
      and p2: "\<forall>b \<in> set sent2. hasRequiredProperties b \<and>
                 (\<exists>i \<in> set ts. \<not> hasReminder (reminderMail w1) (Booking.id b) i)"
      by auto
    let ?s = "filter hasRequiredProperties ?cands"
    have ds: "distinct (map Booking.uid ?s)"
      using distinct_uid_pending [OF Cons.prems(3), of ?t interval]
      by (simp add: distinct_map_filter)
    have disj: "set ?s \<inter> set sent2 = {}"
    proof (rule ccontr)
      assume "set ?s \<inter> set sent2 \<noteq> {}"
      then obtain b where b1: "b \<in> set ?s" and b2: "b \<in> set sent2" by auto
      from p2 b2 obtain i where i: "i \<in> set ts"
        and no: "\<not> hasReminder (reminderMail w1) (Booking.id b) i" by auto
      from i le have "i \<le> interval" by simp
      with b1 have "hasReminder (reminderMail w1) (Booking.id b) i"
        unfolding led hasReminder_append hasReminder_records by blast
      with no show False by simp
    qed
    have inj: "inj_on Booking.uid (set (booking w))"
      using Cons.prems(3) by (simp add: distinct_map)
    have ins: "set ?s \<subseteq> set (booking w)" by (auto simp: set_pending)
    have udisj: "Booking.uid ` set ?s \<inter> Booking.uid ` set sent2 = {}"
    proof (rule ccontr)
      assume "Booking.uid ` set ?s \<inter> Booking.uid ` set sent2 \<noteq> {}"
      then obtain b1 b2 where b1: "b1 \<in> set ?s" and b2: "b2 \<in> set sent2"
        and eq: "Booking.uid b1 = Booking.uid b2" by auto
      from b1 ins have "b1 \<in> set (booking w)" by auto
      moreover from b2 in2 f(1) have "b2 \<in> set (booking w)" by auto
      ultimately have "b1 = b2" using inj eq by (simp add: inj_on_eq_iff)
      with b1 b2 disj show False by auto
    qed
    have c1: "outbox w' = outbox w @ List.map_filter (bookingEvent env) (?s @ sent2)"
      by (simp add: out2 out_all map_filter_append events_filter)
    have c2: "distinct (map Booking.uid (?s @ sent2))"
      using ds d2 udisj by simp
    have c3: "set (?s @ sent2) \<subseteq> set (booking w)"
      using ins in2 f(1) by auto
    have c4: "\<forall>b \<in> set (?s @ sent2). hasRequiredProperties b \<and>
        (\<exists>i \<in> set (interval # ts). \<not> hasReminder (reminderMail w) (Booking.id b) i)"
    proof
      fix b assume "b \<in> set (?s @ sent2)"
      then consider "b \<in> set ?s" | "b \<in> set sent2" by auto
      then show "hasRequiredProperties b \<and>
        (\<exists>i \<in> set (interval # ts). \<not> hasReminder (reminderMail w) (Booking.id b) i)"
      proof cases
        case 1
        then show ?thesis by (auto simp: set_pending)
      next
        case 2
        with p2 obtain i where "hasRequiredProperties b" "i \<in> set ts"
          "\<not> hasReminder (reminderMail w1) (Booking.id b) i" by auto
        then show ?thesis by (auto simp: led hasReminder_append)
      qed
    qed
    show ?thesis
      by (rule exI [of _ "?s @ sent2"]) (intro conjI c1 c2 c3 c4)
  qed
qed


section \<open>Lemmas: the order of the intervals\<close>

lemma forInterval_total:
  assumes "\<forall>k. sendOk env k \<and> createOk env k"
  shows "\<exists>m w'. forInterval env interval w n = (Inr m, w')"
  unfolding forInterval_pending by (rule forBookings_total [OF assms])

lemma due_step:
  assumes bk: "booking w1 = booking w"
    and led: "reminderMail w1 = reminderMail w @
        map (reminderRecord interval) (filter hasRequiredProperties (pending w t interval))"
    and ids: "distinct (map Booking.id (booking w))"
  shows "set (filter hasRequiredProperties (pending w t interval)) \<union> due w1 t ts =
         due w t (interval # ts)"
proof (intro equalityI subsetI)
  fix b
  assume "b \<in> set (filter hasRequiredProperties (pending w t interval)) \<union> due w1 t ts"
  then show "b \<in> due w t (interval # ts)"
    by (auto simp: due_def set_pending bk led hasReminder_append)
next
  fix b
  assume b: "b \<in> due w t (interval # ts)"
  then have mem: "b \<in> set (booking w)" and pen: "status b = PENDING"
    and val: "hasRequiredProperties b" by (auto simp: due_def)
  from b obtain i where i: "i \<in> set (interval # ts)" and old: "createdAt b \<le> cutoff t i"
    and no: "\<not> hasReminder (reminderMail w) (Booking.id b) i" by (auto simp: due_def)
  let ?s = "filter hasRequiredProperties (pending w t interval)"
  show "b \<in> set ?s \<union> due w1 t ts"
  proof (cases "b \<in> set ?s")
    case True
    then show ?thesis by simp
  next
    case False
    have inj: "inj_on Booking.id (set (booking w))" using ids by (simp add: distinct_map)
    have none: "\<not> hasReminder (map (reminderRecord interval) ?s) (Booking.id b) j" for j
    proof
      assume "hasReminder (map (reminderRecord interval) ?s) (Booking.id b) j"
      then obtain b' where b': "b' \<in> set ?s" and eq: "Booking.id b' = Booking.id b"
        unfolding hasReminder_records by blast
      from b' have "b' \<in> set (booking w)" by (auto simp: set_pending)
      with mem inj eq have "b' = b" by (simp add: inj_on_eq_iff)
      with b' False show False by simp
    qed
    from False mem pen val have "i \<noteq> interval \<or> \<not> createdAt b \<le> cutoff t i \<or>
        hasReminder (reminderMail w) (Booking.id b) i"
      by (auto simp: set_pending)
    with old no i have "i \<in> set ts" by auto
    with mem pen val old no none [of i] have "b \<in> due w1 t ts"
      by (auto simp: due_def bk led hasReminder_append)
    then show ?thesis by simp
  qed
qed

lemma forIntervals_notified:
  "\<forall>k. sendOk env k \<and> createOk env k \<Longrightarrow> \<forall>k. now env k = t \<Longrightarrow>
   distinct (map Booking.id (booking w)) \<Longrightarrow>
   \<exists>m w' sent. forIntervals env ts w n = (Inr m, w') \<and>
      outbox w' = outbox w @ List.map_filter (bookingEvent env) sent \<and>
      set sent = due w t ts"
proof (induction ts arbitrary: w n)
  case Nil
  have "outbox w = outbox w @ List.map_filter (bookingEvent env) []" by simp
  moreover have "set [] = due w t []" by (simp add: due_def)
  ultimately show ?case by (metis forIntervals.simps(1))
next
  case (Cons interval ts)
  from forInterval_total [OF Cons.prems(1)] obtain n1 w1 where
    pass: "forInterval env interval w n = (Inr n1, w1)" by blast
  note run = pass [unfolded forInterval_pending]
  note f = forInterval_frame [OF pass]
  let ?s = "filter hasRequiredProperties (pending w t interval)"
  from forBookings_Inr [OF run] Cons.prems(2)
  have led: "reminderMail w1 = reminderMail w @ map (reminderRecord interval) ?s"
    and out1: "outbox w1 = outbox w @ List.map_filter (bookingEvent env) (pending w t interval)"
    by simp_all
  from Cons.prems(3) f(1) have "distinct (map Booking.id (booking w1))" by simp
  from Cons.IH [OF Cons.prems(1,2) this, of n1] obtain m w' sent2 where
    rest: "forIntervals env ts w1 n1 = (Inr m, w')"
    and out2: "outbox w' = outbox w1 @ List.map_filter (bookingEvent env) sent2"
    and s2: "set sent2 = due w1 t ts" by blast
  have c1: "forIntervals env (interval # ts) w n = (Inr m, w')"
    using pass rest by simp
  have c2: "outbox w' = outbox w @ List.map_filter (bookingEvent env) (?s @ sent2)"
    by (simp add: out2 out1 map_filter_append events_filter)
  have c3: "set (?s @ sent2) = due w t (interval # ts)"
    using due_step [OF f(1) led Cons.prems(3), of ts] s2 by simp
  show ?case
    by (intro exI [of _ m] exI [of _ w'] exI [of _ "?s @ sent2"] conjI c1 c2 c3)
qed

lemma set_events:
  "set (List.map_filter (bookingEvent env) bs) =
     {evt. \<exists>b \<in> set bs. bookingEvent env b = Some evt}"
  by (induction bs) (auto split: option.splits)


section \<open>Lemmas: \<^verbatim>\<open>Promise.all\<close>\<close>

lemma settleAll_fills:
  "length values = length target \<Longrightarrow> distinct (map fst todo) \<Longrightarrow>
   \<forall>(i, x) \<in> set todo. i < length target \<and> target ! i = x \<Longrightarrow>
   \<forall>i < length target. i \<notin> fst ` set todo \<longrightarrow> values ! i = Some (target ! i) \<Longrightarrow>
   settleAll pick step todo values = map Some target"
proof (induction "length todo" arbitrary: todo "values" step)
  case 0
  then have "todo = []" by simp
  with 0 show ?case by (auto intro: nth_equalityI)
next
  case (Suc n)
  then obtain p ps where todo: "todo = p # ps" by (cases todo) auto
  define k where "k = pick step mod length todo"
  have k: "k < length todo" unfolding k_def todo by simp
  obtain i x where ix: "todo ! k = (i, x)" by (cases "todo ! k")
  define rest where "rest = take k todo @ drop (Suc k) todo"
  have split: "todo = take k todo @ (i, x) # drop (Suc k) todo"
    using id_take_nth_drop [OF k] ix by simp
  have step_eq: "settleAll pick step todo values =
      settleAll pick (Suc step) rest (values[i := Some x])"
    unfolding todo settleAll.simps Let_def
    using ix unfolding todo k_def rest_def by simp
  have len: "n = length rest" using Suc.hyps(2) k by (simp add: rest_def)
  have mem: "(i, x) \<in> set todo" using k ix nth_mem by fastforce
  with Suc.prems(3) have i: "i < length target" "target ! i = x" by auto
  have dist: "distinct (map fst (take k todo) @ i # map fst (drop (Suc k) todo))"
    using Suc.prems(2) by (subst (asm) split) simp
  then have d': "distinct (map fst rest)" by (simp add: rest_def)
  from dist have notin: "i \<notin> fst ` set rest" by (auto simp: rest_def)
  have sub: "set rest \<subseteq> set todo"
    unfolding rest_def by (auto dest: in_set_takeD in_set_dropD)
  have all: "set todo = insert (i, x) (set rest)"
    by (subst split) (auto simp: rest_def)
  have p3: "\<forall>(j, y) \<in> set rest. j < length target \<and> target ! j = y"
    using Suc.prems(3) sub by auto
  have p4: "\<forall>j < length target. j \<notin> fst ` set rest \<longrightarrow>
      (values[i := Some x]) ! j = Some (target ! j)"
  proof (intro allI impI)
    fix j assume j: "j < length target" "j \<notin> fst ` set rest"
    show "(values[i := Some x]) ! j = Some (target ! j)"
    proof (cases "j = i")
      case True
      with i Suc.prems(1) show ?thesis by simp
    next
      case False
      with j all have "j \<notin> fst ` set todo" by auto
      with Suc.prems(4) j False show ?thesis by simp
    qed
  qed
  have "settleAll pick (Suc step) rest (values[i := Some x]) = map Some target"
    by (rule Suc.hyps(1) [OF len _ d' p3 p4]) (simp add: Suc.prems(1))
  with step_eq show ?case by simp
qed

lemma settleAll_enumerate:
  "settleAll pick 0 (List.enumerate 0 promises) (replicate (length promises) None) =
   map Some promises"
proof (rule settleAll_fills)
  show "\<forall>(i, x) \<in> set (List.enumerate 0 promises). i < length promises \<and> promises ! i = x"
    by (auto simp: in_set_enumerate_eq)
  show "\<forall>i < length promises. i \<notin> fst ` set (List.enumerate 0 promises) \<longrightarrow>
      replicate (length promises) None ! i = Some (promises ! i)"
  proof (intro allI impI)
    fix i assume "i < length promises" "i \<notin> fst ` set (List.enumerate 0 promises)"
    moreover from this(1) have "(i, promises ! i) \<in> set (List.enumerate 0 promises)"
      by (simp add: in_set_enumerate_eq)
    ultimately show "replicate (length promises) None ! i = Some (promises ! i)"
      by (metis fst_conv image_eqI)
  qed
qed simp_all

lemma Promise_all_order: "Promise_all pick promises = promises"
  by (simp add: Promise_all_def settleAll_enumerate List.map_filter_def comp_def)

section \<open>Lemmas: \<^verbatim>\<open>toISOString\<close>\<close>

lemma div_bounds:
  fixes a c :: int
  assumes "0 < c"
  shows "c * (a div c) \<le> a" and "a < c * (a div c) + c"
proof -
  have "a = c * (a div c) + a mod c" by simp
  moreover have "0 \<le> a mod c" "a mod c < c" using assms by simp_all
  ultimately show "c * (a div c) \<le> a" and "a < c * (a div c) + c" by linarith+
qed

lemma dayOfYear_bounds:
  fixes d3 :: int
  assumes "0 \<le> d3" and "d3 \<le> 1460"
  shows "0 \<le> d3 - min 3 (d3 div 365) * 365 \<and> d3 - min 3 (d3 div 365) * 365 \<le> 365"
proof -
  define q where "q = d3 div 365"
  have "365 * q \<le> d3" "d3 < 365 * q + 365"
    unfolding q_def by (rule div_bounds, simp)+
  with assms show ?thesis
    unfolding q_def [symmetric] min_def by (cases "3 \<le> q") simp_all
qed

lemma monthDay_bounds:
  fixes doy :: int
  assumes "0 \<le> doy" and "doy \<le> 365"
  defines "mp \<equiv> (5 * doy + 2) div 153"
  shows "0 \<le> mp \<and> mp \<le> 11 \<and> 1 \<le> doy - (153 * mp + 2) div 5 + 1 \<and>
         doy - (153 * mp + 2) div 5 + 1 \<le> 31"
proof -
  define q where "q = (153 * mp + 2) div 5"
  have mp: "153 * mp \<le> 5 * doy + 2" "5 * doy + 2 < 153 * mp + 153"
    unfolding mp_def by (rule div_bounds, simp)+
  have q: "5 * q \<le> 153 * mp + 2" "153 * mp + 2 < 5 * q + 5"
    unfolding q_def by (rule div_bounds, simp)+
  from mp q assms(1,2) show ?thesis unfolding q_def [symmetric] by linarith
qed

lemma civilFromDays_month_day:
  assumes "civilFromDays days = (y, m, d)"
  shows "1 \<le> m \<and> m \<le> 12 \<and> 1 \<le> d \<and> d \<le> 31"
proof -
  define doe where "doe = (days + 719468) mod 146097"
  define d2 where "d2 = doe - min 3 (doe div 36524) * 36524"
  define d3 where "d3 = d2 mod 1461"
  define doy where "doy = d3 - min 3 (d3 div 365) * 365"
  define mp where "mp = (5 * doy + 2) div 153"
  define m' where "m' = (if mp < 10 then mp + 3 else mp - 9)"
  define d' where "d' = doy - (153 * mp + 2) div 5 + 1"
  have "0 \<le> d3" "d3 \<le> 1460" by (simp_all add: d3_def)
  then have doy: "0 \<le> doy" "doy \<le> 365"
    unfolding doy_def using dayOfYear_bounds [of d3] by simp_all
  note md = monthDay_bounds [OF doy, folded mp_def]
  have "snd (civilFromDays days) = (m', d')"
    unfolding civilFromDays_def Let_def m'_def d'_def mp_def doy_def d3_def d2_def doe_def
    by (simp only: snd_conv)
  with assms have m: "m = m'" and d: "d = d'" by simp_all
  from md have "1 \<le> m' \<and> m' \<le> 12" unfolding m'_def by (simp split: if_splits)
  with md show ?thesis unfolding m d d'_def by simp
qed

lemma yearOfEra_bounds:
  fixes doe :: int
  assumes "0 \<le> doe" and "doe \<le> 146096"
  defines "n100 \<equiv> min 3 (doe div 36524)"
  defines "d2 \<equiv> doe - n100 * 36524"
  shows "0 \<le> n100 * 100 + d2 div 1461 * 4 + min 3 (d2 mod 1461 div 365) \<and>
         n100 * 100 + d2 div 1461 * 4 + min 3 (d2 mod 1461 div 365) \<le> 699"
proof -
  define c where "c = doe div 36524"
  have c: "36524 * c \<le> doe" "doe < 36524 * c + 36524"
    unfolding c_def by (rule div_bounds, simp)+
  with assms(1) have c0: "0 \<le> c" by linarith
  have n100: "0 \<le> n100" "n100 \<le> 3" "n100 \<le> c"
    unfolding n100_def c_def [symmetric] using c0 by simp_all
  have "n100 * 36524 \<le> c * 36524" using n100(3) by simp
  with c(1) have d2: "0 \<le> d2" "d2 \<le> 146096" unfolding d2_def using assms(2) n100(1) by simp_all
  define n4 where "n4 = d2 div 1461"
  have n4b: "1461 * n4 \<le> d2" "d2 < 1461 * n4 + 1461"
    unfolding n4_def by (rule div_bounds, simp)+
  with d2 have n4: "0 \<le> n4" "n4 \<le> 99" by linarith+
  define e where "e = d2 mod 1461 div 365"
  have "0 \<le> d2 mod 1461" by simp
  moreover have "365 * e \<le> d2 mod 1461" "d2 mod 1461 < 365 * e + 365"
    unfolding e_def by (rule div_bounds, simp)+
  ultimately have "0 \<le> e" by linarith
  then have n1: "0 \<le> min 3 e" "min 3 e \<le> 3" by simp_all
  from n100 n4 n1 show ?thesis
    unfolding n4_def [symmetric] e_def [symmetric] by linarith
qed

lemma civilFromDays_year:
  assumes "civilFromDays days = (y, m, d)" and "- 100000000 \<le> days" and "days \<le> 100000000"
  shows "- 999999 \<le> y \<and> y \<le> 999999"
proof -
  define z where "z = days + 719468"
  define era where "era = z div 146097"
  define doe where "doe = z mod 146097"
  define n100 where "n100 = min 3 (doe div 36524)"
  define d2 where "d2 = doe - n100 * 36524"
  define yoe where "yoe = n100 * 100 + d2 div 1461 * 4 + min 3 (d2 mod 1461 div 365)"
  define d3 where "d3 = d2 mod 1461"
  define doy where "doy = d3 - min 3 (d3 div 365) * 365"
  define mp where "mp = (5 * doy + 2) div 153"
  define m' where "m' = (if mp < 10 then mp + 3 else mp - 9)"
  define c where "c = (if m' \<le> 2 then 1 else 0 :: int)"
  have "0 \<le> doe" "doe \<le> 146096" by (simp_all add: doe_def)
  from yearOfEra_bounds [OF this] have yoe: "0 \<le> yoe" "yoe \<le> 699"
    unfolding yoe_def d2_def n100_def by simp_all
  have "146097 * era \<le> z" "z < 146097 * era + 146097"
    unfolding era_def by (rule div_bounds, simp)+
  with assms(2,3) have era: "- 1000 \<le> era" "era \<le> 1000" unfolding z_def by linarith+
  have "fst (civilFromDays days) = yoe + era * 400 + c"
    unfolding civilFromDays_def Let_def c_def m'_def mp_def doy_def d3_def yoe_def d2_def
      n100_def doe_def era_def z_def
    by (simp only: fst_conv)
  with assms(1) have "y = yoe + era * 400 + c" by simp
  moreover have "0 \<le> c" "c \<le> 1" by (simp_all add: c_def)
  ultimately show ?thesis using yoe era by linarith
qed

lemma isDigit_digitChar: "n < 10 \<Longrightarrow> isDigit (digitChar n)"
  by (simp add: isDigit_def digitChar_def)

lemma digitVal_digitChar: "n < 10 \<Longrightarrow> digitVal (digitChar n) = n"
  by (simp add: digitVal_def digitChar_def)

lemma decimal_snoc: "decimal (s @ [c]) = 10 * decimal s + digitVal c"
  by (simp add: decimal_def)

lemma showNat_digits: "list_all isDigit (showNat n)"
proof (induction n rule: showNat.induct)
  case (1 n)
  show ?case
  proof (cases "n < 10")
    case True
    then show ?thesis by (subst showNat.simps) (simp add: isDigit_digitChar)
  next
    case False
    with 1 show ?thesis by (subst showNat.simps) (simp add: isDigit_digitChar)
  qed
qed

lemma decimal_showNat: "decimal (showNat n) = n"
proof (induction n rule: showNat.induct)
  case (1 n)
  show ?case
  proof (cases "n < 10")
    case True
    then show ?thesis by (subst showNat.simps) (simp add: decimal_def digitVal_digitChar)
  next
    case False
    with 1 show ?thesis
      by (subst showNat.simps) (simp add: decimal_snoc digitVal_digitChar)
  qed
qed

lemma length_showNat: "n < 10 ^ Suc w \<Longrightarrow> length (showNat n) \<le> Suc w"
proof (induction w arbitrary: n)
  case 0
  then show ?case by (subst showNat.simps) simp
next
  case (Suc w)
  show ?case
  proof (cases "n < 10")
    case True
    then show ?thesis by (subst showNat.simps) simp
  next
    case False
    from Suc.prems have "n div 10 < 10 ^ Suc w" by simp
    from Suc.IH [OF this] False show ?thesis by (subst showNat.simps) simp
  qed
qed

lemma decimal_zeros: "decimal (replicate k (CHR ''0'') @ s) = decimal s"
proof -
  have "foldl (\<lambda>acc c. 10 * acc + digitVal c) 0 (replicate k (CHR ''0'')) = 0"
    by (induction k) (simp_all add: digitVal_def)
  then show ?thesis by (simp add: decimal_def)
qed

lemma pad_numIn:
  assumes "0 \<le> n" and "n < 10 ^ Suc w" and "lo \<le> nat n" and "nat n \<le> hi"
  shows "numIn (pad (Suc w) n) lo hi" and "length (pad (Suc w) n) = Suc w"
proof -
  from assms(1,2) have "nat n < 10 ^ Suc w"
    by (metis nat_less_iff of_nat_numeral of_nat_power)
  from length_showNat [OF this] show "length (pad (Suc w) n) = Suc w"
    by (simp add: pad_def padStart_def)
  have "isDigit (CHR ''0'')" by (simp add: isDigit_def)
  then have "list_all isDigit (replicate k (CHR ''0''))" for k
    by (induction k) simp_all
  then show "numIn (pad (Suc w) n) lo hi"
    using assms(3,4)
    by (simp add: numIn_def pad_def padStart_def decimal_zeros decimal_showNat showNat_digits)
qed


lemma isISOTail_build:
  assumes "numIn pm 1 12" "length pm = 2" "numIn pd 1 31" "length pd = 2"
    "numIn ph 0 23" "length ph = 2" "numIn pmi 0 59" "length pmi = 2"
    "numIn ps 0 59" "length ps = 2" "numIn pms 0 999" "length pms = 3"
  shows "isISOTail (''-'' @ pm @ ''-'' @ pd @ ''T'' @ ph @ '':'' @ pmi @ '':'' @ ps @ ''.'' @ pms @ ''Z'')"
proof -
  have two: "\<exists>a b. s = [a, b]" if "length s = 2" for s :: string
    using that by (cases s; cases "tl s") auto
  have three: "\<exists>a b c. s = [a, b, c]" if "length s = 3" for s :: string
    using that by (cases s; cases "tl s"; cases "tl (tl s)") auto
  from two [OF assms(2)] obtain m1 m2 where pm: "pm = [m1, m2]" by blast
  from two [OF assms(4)] obtain d1 d2 where pd: "pd = [d1, d2]" by blast
  from two [OF assms(6)] obtain h1 h2 where ph: "ph = [h1, h2]" by blast
  from two [OF assms(8)] obtain i1 i2 where pmi: "pmi = [i1, i2]" by blast
  from two [OF assms(10)] obtain s1 s2 where ps: "ps = [s1, s2]" by blast
  from three [OF assms(12)] obtain f1 f2 f3 where pms: "pms = [f1, f2, f3]" by blast
  show ?thesis
    using assms(1,3,5,7,9,11) unfolding pm pd ph pmi ps pms
    by (simp add: isISOTail_def)
qed

lemma timeOfDay_bounds:
  fixes msOfDay :: int
  assumes "0 \<le> msOfDay" and "msOfDay < 86400000"
  shows "0 \<le> msOfDay div 3600000 \<and> msOfDay div 3600000 \<le> 23"
    and "0 \<le> msOfDay mod 3600000 div 60000 \<and> msOfDay mod 3600000 div 60000 \<le> 59"
    and "0 \<le> msOfDay mod 60000 div 1000 \<and> msOfDay mod 60000 div 1000 \<le> 59"
    and "0 \<le> msOfDay mod 1000 \<and> msOfDay mod 1000 \<le> 999"
proof -
  define h where "h = msOfDay div 3600000"
  have "3600000 * h \<le> msOfDay" "msOfDay < 3600000 * h + 3600000"
    unfolding h_def by (rule div_bounds, simp)+
  with assms show "0 \<le> msOfDay div 3600000 \<and> msOfDay div 3600000 \<le> 23"
    unfolding h_def [symmetric] by linarith
  define r where "r = msOfDay mod 3600000"
  define q where "q = r div 60000"
  have "0 \<le> r" "r < 3600000" by (simp_all add: r_def)
  moreover have "60000 * q \<le> r" "r < 60000 * q + 60000"
    unfolding q_def by (rule div_bounds, simp)+
  ultimately show "0 \<le> msOfDay mod 3600000 div 60000 \<and> msOfDay mod 3600000 div 60000 \<le> 59"
    unfolding r_def [symmetric] q_def [symmetric] by linarith
  define r' where "r' = msOfDay mod 60000"
  define q' where "q' = r' div 1000"
  have "0 \<le> r'" "r' < 60000" by (simp_all add: r'_def)
  moreover have "1000 * q' \<le> r'" "r' < 1000 * q' + 1000"
    unfolding q'_def by (rule div_bounds, simp)+
  ultimately show "0 \<le> msOfDay mod 60000 div 1000 \<and> msOfDay mod 60000 div 1000 \<le> 59"
    unfolding r'_def [symmetric] q'_def [symmetric] by linarith
  have "0 \<le> msOfDay mod 1000" "msOfDay mod 1000 < 1000" by simp_all
  then show "0 \<le> msOfDay mod 1000 \<and> msOfDay mod 1000 \<le> 999" by linarith
qed

lemma pad_field:
  assumes "lo \<le> n" and "n \<le> hi" and "0 \<le> lo" and "hi < 10 ^ w" and "0 < w"
  shows "numIn (pad w n) (nat lo) (nat hi)" and "length (pad w n) = w"
proof -
  from assms(5) obtain w' where w: "w = Suc w'" by (cases w) auto
  from assms have "0 \<le> n" "n < 10 ^ Suc w'" "nat lo \<le> nat n" "nat n \<le> nat hi"
    unfolding w by linarith+
  from pad_numIn [OF this] show "numIn (pad w n) (nat lo) (nat hi)" and "length (pad w n) = w"
    unfolding w by simp_all
qed

lemma isDigit_not_sign: "isDigit c \<Longrightarrow> c \<noteq> CHR ''+'' \<and> c \<noteq> CHR ''-''"
  by (auto simp: isDigit_def)

lemma isISO8601_plain:
  assumes "numIn py 0 9999" and "length py = 4" and "isISOTail r"
  shows "isISO8601 (py @ r)"
proof -
  from assms(2) obtain a b c d where py: "py = [a, b, c, d]"
    by (cases py; cases "tl py"; cases "tl (tl py)"; cases "tl (tl (tl py))") auto
  from assms(1) have "isDigit a" by (simp add: py numIn_def)
  from isDigit_not_sign [OF this] have "a \<noteq> CHR ''+''" "a \<noteq> CHR ''-''" by simp_all
  moreover from assms(3) have "length r = 20" by (simp add: isISOTail_def)
  ultimately show ?thesis using assms(1,3) by (simp add: isISO8601_def py)
qed

lemma isISO8601_expanded:
  assumes "c = CHR ''+'' \<or> c = CHR ''-''" and "numIn py 0 999999" and "length py = 6"
    and "isISOTail r"
  shows "isISO8601 (c # py @ r)"
proof -
  from assms(4) have "length r = 20" by (simp add: isISOTail_def)
  with assms show ?thesis by (auto simp: isISO8601_def)
qed

lemma toISOString_iso:
  assumes "- 8640000000000000 \<le> t" and "t \<le> 8640000000000000"
  shows "isISO8601 (toISOString t)"
proof -
  define days where "days = t div 86400000"
  define msOfDay where "msOfDay = t mod 86400000"
  obtain y m d where civil: "civilFromDays days = (y, m, d)"
    by (cases "civilFromDays days")
  have "86400000 * days \<le> t" "t < 86400000 * days + 86400000"
    unfolding days_def by (rule div_bounds, simp)+
  with assms have "- 100000000 \<le> days" "days \<le> 100000000" by linarith+
  from civilFromDays_year [OF civil this] have y: "- 999999 \<le> y" "y \<le> 999999" by simp_all
  from civilFromDays_month_day [OF civil]
  have m: "1 \<le> m" "m \<le> 12" and d: "1 \<le> d" "d \<le> 31" by simp_all
  have "0 \<le> msOfDay" "msOfDay < 86400000" by (simp_all add: msOfDay_def)
  note tod = timeOfDay_bounds [OF this]
  define hh where "hh = msOfDay div 3600000"
  define mi where "mi = msOfDay mod 3600000 div 60000"
  define ss where "ss = msOfDay mod 60000 div 1000"
  define ms where "ms = msOfDay mod 1000"
  have hh: "0 \<le> hh" "hh \<le> 23" and mi: "0 \<le> mi" "mi \<le> 59"
    and ss: "0 \<le> ss" "ss \<le> 59" and ms: "0 \<le> ms" "ms \<le> 999"
    using tod unfolding hh_def mi_def ss_def ms_def by blast+
  have tail: "isISOTail (''-'' @ pad 2 m @ ''-'' @ pad 2 d @ ''T'' @
      pad 2 hh @ '':'' @ pad 2 mi @ '':'' @ pad 2 ss @ ''.'' @ pad 3 ms @ ''Z'')"
  proof (rule isISOTail_build)
    show "numIn (pad 2 m) 1 12" "length (pad 2 m) = 2"
      using pad_field [of 1 m 12 2] m by simp_all
    show "numIn (pad 2 d) 1 31" "length (pad 2 d) = 2"
      using pad_field [of 1 d 31 2] d by simp_all
    show "numIn (pad 2 hh) 0 23" "length (pad 2 hh) = 2"
      using pad_field [of 0 hh 23 2] hh by simp_all
    show "numIn (pad 2 mi) 0 59" "length (pad 2 mi) = 2"
      using pad_field [of 0 mi 59 2] mi by simp_all
    show "numIn (pad 2 ss) 0 59" "length (pad 2 ss) = 2"
      using pad_field [of 0 ss 59 2] ss by simp_all
    show "numIn (pad 3 ms) 0 999" "length (pad 3 ms) = 3"
      using pad_field [of 0 ms 999 3] ms by simp_all
  qed
  have str: "toISOString t = yearString y @ ''-'' @ pad 2 m @ ''-'' @ pad 2 d @ ''T'' @
      pad 2 hh @ '':'' @ pad 2 mi @ '':'' @ pad 2 ss @ ''.'' @ pad 3 ms @ ''Z''"
    unfolding toISOString_def Let_def days_def [symmetric] msOfDay_def [symmetric] civil
      hh_def mi_def ss_def ms_def
    by (simp only: prod.case)
  show ?thesis
  proof (cases "0 \<le> y \<and> y \<le> 9999")
    case True
    then have "numIn (pad 4 y) 0 9999" "length (pad 4 y) = 4"
      using pad_field [of 0 y 9999 4] by simp_all
    from isISO8601_plain [OF this tail] True show ?thesis
      unfolding str yearString_def by simp
  next
    case False
    have pad6: "numIn (pad 6 \<bar>y\<bar>) 0 999999" "length (pad 6 \<bar>y\<bar>) = 6"
      using pad_field [of 0 "\<bar>y\<bar>" 999999 6] y by simp_all
    have sign: "(if y < 0 then CHR ''-'' else CHR ''+'') = CHR ''+'' \<or>
        (if y < 0 then CHR ''-'' else CHR ''+'') = CHR ''-''" by simp
    have "yearString y = (if y < 0 then CHR ''-'' else CHR ''+'') # pad 6 \<bar>y\<bar>"
      using False by (simp only: yearString_def if_False)
    with isISO8601_expanded [OF sign pad6 tail] show ?thesis
      unfolding str by simp
  qed
qed

section \<open>Evaluating the handler on the example worlds\<close>

lemmas run_defs = handler_def strictNotEqual_def requestApiKey_def reminderIntervalMinutes_def
  forInterval_def findBookings_def findReminders_def candidates_def cutoff_def organizerName_def
  or_js_def truthy_def reminderRecord_def Let_def

lemmas ex_defs = jane_def nameless_def bookingOf_def worldOf_def always_def notFirst_def
  fiftyHours_def envOf_def requestOf_def

section \<open>The claims\<close>

subsection \<open>Authentication and method\<close>

text \<open>
  Claim C10. If \<^verbatim>\<open>CRON_API_KEY\<close> is unset, a request with neither an authorization header
  nor an \<^verbatim>\<open>apiKey\<close> query parameter passes the authentication check (both sides of the
  comparison are \<^verbatim>\<open>undefined\<close>): it never receives 401 and is processed as an authenticated
  request is, by the method check and then the reminder loop.
\<close>

theorem unset_secret_admits_keyless_request:
  assumes "CRON_API_KEY env = None" and "authorization req = None" and "apiKey req = None"
  shows "fst (handler env req w) \<noteq> Inr (Response 401 (Message ''Not authenticated'')) \<and>
         handler env req w =
           (if method' req \<noteq> Some ''POST''
            then (Inr (Response 405 (Message ''Invalid method'')), w)
            else (case forIntervals env reminderIntervalMinutes w 0 of
                    (Inl e, w') \<Rightarrow> (Inl e, w')
                  | (Inr notificationsSent, w') \<Rightarrow>
                      (Inr (Response 200 (NotificationsSent notificationsSent)), w')))"
proof -
  from assms have "\<not> strictNotEqual (CRON_API_KEY env) (requestApiKey req)"
    by (simp add: strictNotEqual_def requestApiKey_def)
  then show ?thesis
    by (auto simp: handler_def split: prod.splits sum.splits)
qed

theorem unset_secret_admits_keyless_request_witness:
  "CRON_API_KEY (envOf None always always) = None \<and>
   authorization (requestOf ''GET'' None) = None \<and>
   apiKey (requestOf ''GET'' None) = None \<and>
   handler (envOf None always always) (requestOf ''GET'' None) (worldOf [] []) =
     (Inr (Response 405 (Message ''Invalid method'')), worldOf [] []) \<and>
   handler (envOf None always always) (requestOf ''POST'' None) (worldOf [] []) =
     (Inr (Response 200 (NotificationsSent 0)),
      (worldOf [] [])\<lparr>clockReads := 3\<rparr>)"
  using unset_secret_admits_keyless_request
      [of "envOf None always always" "requestOf ''GET'' None" "worldOf [] []"]
    unset_secret_admits_keyless_request
      [of "envOf None always always" "requestOf ''POST'' None" "worldOf [] []"]
  by (simp add: envOf_def requestOf_def worldOf_def reminderIntervalMinutes_def forInterval_def
      findBookings_def findReminders_def candidates_def)

text \<open>
  Claim C6, as stated: every request whose method is not \<^verbatim>\<open>POST\<close> is answered 405. The
  handler compares the secret first, so a \<^verbatim>\<open>GET\<close> without the secret is answered 401.
\<close>

theorem unauthenticated_get_is_401_counterexample:
  "method' (requestOf ''GET'' None) \<noteq> Some ''POST'' \<and>
   handler (envOf (Some ''secret'') always always) (requestOf ''GET'' None)
       (worldOf [bookingOf 1 ''a'' (Some jane)] []) =
     (Inr (Response 401 (Message ''Not authenticated'')), worldOf [bookingOf 1 ''a'' (Some jane)] [])"
  by (simp add: handler_def strictNotEqual_def requestApiKey_def envOf_def requestOf_def)

text \<open>
  Claim C6, amended. Every request that passes the authentication check and whose method is
  not \<^verbatim>\<open>POST\<close> is answered 405 with the message "Invalid method", and the world is left as
  it was: no reading of the clock, no query, no mail, no ledger record.
\<close>

theorem authenticated_non_post_is_405:
  assumes "\<not> strictNotEqual (CRON_API_KEY env) (requestApiKey req)"
    and "method' req \<noteq> Some ''POST''"
  shows "handler env req w = (Inr (Response 405 (Message ''Invalid method'')), w)"
  using assms by (simp add: handler_def)

theorem authenticated_non_post_is_405_witness:
  "\<not> strictNotEqual (CRON_API_KEY (envOf (Some ''secret'') always always))
        (requestApiKey (requestOf ''GET'' (Some ''secret''))) \<and>
   method' (requestOf ''GET'' (Some ''secret'')) \<noteq> Some ''POST'' \<and>
   handler (envOf (Some ''secret'') always always) (requestOf ''GET'' (Some ''secret''))
       (worldOf [bookingOf 1 ''a'' (Some jane)] []) =
     (Inr (Response 405 (Message ''Invalid method'')), worldOf [bookingOf 1 ''a'' (Some jane)] [])"
  using authenticated_non_post_is_405
      [of "envOf (Some ''secret'') always always" "requestOf ''GET'' (Some ''secret'')"
          "worldOf [bookingOf 1 ''a'' (Some jane)] []"]
  by (simp add: strictNotEqual_def requestApiKey_def envOf_def requestOf_def)

subsection \<open>The payload\<close>

text \<open>
  Claim C7. The attendee blocks of the composed payload are the blocks of the booking's
  attendees in the order of the source sequence (names, e-mail addresses and locales in that
  order), whatever the order \<open>pick\<close> in which the translator promises settle; and when
  \<^verbatim>\<open>Promise.all\<close> resolves, the block of every attendee is present in its result array.
\<close>

theorem attendees_keep_source_order:
  "CalendarEvent.attendees (calendarEvent pick b u nm) = map attendeePerson (Booking.attendees b) \<and>
   map Person.name (CalendarEvent.attendees (calendarEvent pick b u nm)) =
     map Attendee.name (Booking.attendees b) \<and>
   map Person.email (CalendarEvent.attendees (calendarEvent pick b u nm)) =
     map Attendee.email (Booking.attendees b) \<and>
   map (Language.locale' \<circ> Person.language) (CalendarEvent.attendees (calendarEvent pick b u nm)) =
     map (\<lambda>a. nullish (Attendee.locale' a) ''en'') (Booking.attendees b) \<and>
   settleAll pick 0 (List.enumerate 0 (map attendeePerson (Booking.attendees b)))
       (replicate (length (Booking.attendees b)) None) =
     map (\<lambda>a. Some (attendeePerson a)) (Booking.attendees b)"
  using settleAll_enumerate [of pick "map attendeePerson (Booking.attendees b)"]
  by (simp add: calendarEvent_def Promise_all_order attendeePerson_def comp_def)

subsection \<open>Candidates of an interval\<close>

text \<open>
  Claim C2. For every interval and every booking \<open>b\<close> of the fetched set, \<open>b\<close> is excluded
  from the candidates if and only if the ledger holds a reminder of kind
  \<open>PENDING_BOOKING_CONFIRMATION\<close> for \<open>b\<close> with at least that many elapsed minutes. So a
  reminder at 2880 excludes \<open>b\<close> from the passes at 1440 and at 180, and a booking whose
  only reminders are at 180 (it has one at 180 and none above) is a candidate of the pass at
  1440.
\<close>

theorem candidate_excluded_iff_reminder:
  assumes "b \<in> set bookings"
  shows "(b \<notin> set (candidates bookings (findReminders w (map Booking.id bookings) interval))) =
           (\<exists>r \<in> set (reminderMail w).
              reminderType r = PENDING_BOOKING_CONFIRMATION \<and>
              referenceId r = Booking.id b \<and> interval \<le> elapsedMinutes r) \<and>
         (hasReminder (reminderMail w) (Booking.id b) 2880 \<longrightarrow>
            b \<notin> set (candidates bookings (findReminders w (map Booking.id bookings) 1440)) \<and>
            b \<notin> set (candidates bookings (findReminders w (map Booking.id bookings) 180))) \<and>
         (hasReminder (reminderMail w) (Booking.id b) 180 \<and>
          \<not> hasReminder (reminderMail w) (Booking.id b) 181 \<longrightarrow>
            b \<in> set (candidates bookings (findReminders w (map Booking.id bookings) 1440)))"
proof -
  have excl: "(b \<in> set (candidates bookings (findReminders w (map Booking.id bookings) i))) =
      (\<not> hasReminder (reminderMail w) (Booking.id b) i)" for i
    using assms by (auto simp: candidates_def findReminders_def hasReminder_def list_ex_iff)
  have mono: "hasReminder (reminderMail w) (Booking.id b) j"
    if "hasReminder (reminderMail w) (Booking.id b) i" and "j \<le> i" for i j
    using that by (auto simp: hasReminder_def list_ex_iff)
  have "hasReminder (reminderMail w) (Booking.id b) interval =
      (\<exists>r \<in> set (reminderMail w).
              reminderType r = PENDING_BOOKING_CONFIRMATION \<and>
              referenceId r = Booking.id b \<and> interval \<le> elapsedMinutes r)"
    by (simp add: hasReminder_def list_ex_iff)
  moreover have "hasReminder (reminderMail w) (Booking.id b) 1440"
    "hasReminder (reminderMail w) (Booking.id b) 180"
    if "hasReminder (reminderMail w) (Booking.id b) 2880"
    using mono [OF that] by simp_all
  moreover have "\<not> hasReminder (reminderMail w) (Booking.id b) 1440"
    if "\<not> hasReminder (reminderMail w) (Booking.id b) 181"
    using mono [of 1440 181] that by auto
  ultimately show ?thesis unfolding excl by (simp only: not_not) blast
qed

theorem candidate_excluded_iff_reminder_witness:
  "bookingOf 1 ''a'' (Some jane) \<in> set [bookingOf 1 ''a'' (Some jane), bookingOf 2 ''b'' (Some jane)] \<and>
   bookingOf 1 ''a'' (Some jane) \<notin> set (candidates [bookingOf 1 ''a'' (Some jane), bookingOf 2 ''b'' (Some jane)]
     (findReminders (worldOf [] [reminderRecord 2880 (bookingOf 1 ''a'' (Some jane)),
                                 reminderRecord 180 (bookingOf 2 ''b'' (Some jane))])
        (map Booking.id [bookingOf 1 ''a'' (Some jane), bookingOf 2 ''b'' (Some jane)]) 1440)) \<and>
   bookingOf 1 ''a'' (Some jane) \<notin> set (candidates [bookingOf 1 ''a'' (Some jane), bookingOf 2 ''b'' (Some jane)]
     (findReminders (worldOf [] [reminderRecord 2880 (bookingOf 1 ''a'' (Some jane)),
                                 reminderRecord 180 (bookingOf 2 ''b'' (Some jane))])
        (map Booking.id [bookingOf 1 ''a'' (Some jane), bookingOf 2 ''b'' (Some jane)]) 180)) \<and>
   bookingOf 2 ''b'' (Some jane) \<in> set (candidates [bookingOf 1 ''a'' (Some jane), bookingOf 2 ''b'' (Some jane)]
     (findReminders (worldOf [] [reminderRecord 2880 (bookingOf 1 ''a'' (Some jane)),
                                 reminderRecord 180 (bookingOf 2 ''b'' (Some jane))])
        (map Booking.id [bookingOf 1 ''a'' (Some jane), bookingOf 2 ''b'' (Some jane)]) 1440))"
proof -
  let ?b1 = "bookingOf 1 ''a'' (Some jane)" and ?b2 = "bookingOf 2 ''b'' (Some jane)"
  let ?w = "worldOf [] [reminderRecord 2880 ?b1, reminderRecord 180 ?b2]"
  have m1: "?b1 \<in> set [?b1, ?b2]" and m2: "?b2 \<in> set [?b1, ?b2]" by simp_all
  have r1: "hasReminder (reminderMail ?w) (Booking.id ?b1) 2880"
    by (simp add: hasReminder_def worldOf_def reminderRecord_def bookingOf_def)
  have r2: "hasReminder (reminderMail ?w) (Booking.id ?b2) 180 \<and>
      \<not> hasReminder (reminderMail ?w) (Booking.id ?b2) 181"
    by (simp add: hasReminder_def worldOf_def reminderRecord_def bookingOf_def)
  from candidate_excluded_iff_reminder [OF m1, of ?w] r1
    candidate_excluded_iff_reminder [OF m2, of ?w] r2 m1
  show ?thesis by blast
qed

subsection \<open>Bookings without the organizer's properties\<close>

text \<open>
  Claim C5. A booking whose organizer is missing, has neither a name nor a username, or has
  no time zone gets no payload; the loop writes the diagnostic to the console and continues
  with the next booking, with the counter, the mails, the ledger and the numbers of calls of
  the mailer and of the insert unchanged.
\<close>

theorem invalid_organizer_is_skipped:
  assumes "Booking.user b = None \<or>
           (\<exists>u. Booking.user b = Some u \<and>
                ((\<not> truthy (User.name u) \<and> \<not> truthy (User.username u)) \<or> User.timeZone u = []))"
  shows "bookingEvent env b = None \<and>
         forBookings env interval (b # bs) w n =
           forBookings env interval bs
             (w\<lparr>console := console w @ [MissingRequiredProperties (Booking.id b) (Booking.user b)]\<rparr>) n \<and>
         (\<forall>r w'. forBookings env interval [b] w n = (r, w') \<longrightarrow>
            r = Inr n \<and> outbox w' = outbox w \<and> reminderMail w' = reminderMail w \<and>
            sendCalls w' = sendCalls w \<and> createCalls w' = createCalls w \<and>
            console w' = console w @ [MissingRequiredProperties (Booking.id b) (Booking.user b)])"
proof -
  from assms have nv: "\<not> hasRequiredProperties b"
    by (auto simp: hasRequiredProperties_def organizerName_def or_js_def)
  then have c1: "bookingEvent env b = None" by (simp add: bookingEvent_None_iff)
  note c2 = forBookings_skip [OF nv, of env interval bs w n]
  have one: "forBookings env interval [b] w n =
      (Inr n, w\<lparr>console := console w @ [MissingRequiredProperties (Booking.id b) (Booking.user b)]\<rparr>)"
    by (simp only: forBookings_skip [OF nv] forBookings.simps(1))
  have c3: "\<forall>r w'. forBookings env interval [b] w n = (r, w') \<longrightarrow>
            r = Inr n \<and> outbox w' = outbox w \<and> reminderMail w' = reminderMail w \<and>
            sendCalls w' = sendCalls w \<and> createCalls w' = createCalls w \<and>
            console w' = console w @ [MissingRequiredProperties (Booking.id b) (Booking.user b)]"
    unfolding one by auto
  from c1 c2 c3 show ?thesis by (intro conjI)
qed

theorem invalid_organizer_is_skipped_witness:
  "(\<exists>u. Booking.user (bookingOf 2 ''b'' (Some nameless)) = Some u \<and>
        ((\<not> truthy (User.name u) \<and> \<not> truthy (User.username u)) \<or> User.timeZone u = [])) \<and>
   forBookings (envOf None always always) 2880
       [bookingOf 2 ''b'' (Some nameless), bookingOf 3 ''c'' None] (worldOf [] []) 0 =
     (Inr 0, (worldOf [] [])\<lparr>console :=
        [MissingRequiredProperties 2 (Some nameless), MissingRequiredProperties 3 None]\<rparr>)"
proof -
  have h2: "Booking.user (bookingOf 2 ''b'' (Some nameless)) = None \<or>
      (\<exists>u. Booking.user (bookingOf 2 ''b'' (Some nameless)) = Some u \<and>
        ((\<not> truthy (User.name u) \<and> \<not> truthy (User.username u)) \<or> User.timeZone u = []))"
    by (simp add: bookingOf_def nameless_def truthy_def)
  have h3: "Booking.user (bookingOf 3 ''c'' None) = None \<or>
      (\<exists>u. Booking.user (bookingOf 3 ''c'' None) = Some u \<and>
        ((\<not> truthy (User.name u) \<and> \<not> truthy (User.username u)) \<or> User.timeZone u = []))"
    by (simp add: bookingOf_def)
  from h2 have "\<exists>u. Booking.user (bookingOf 2 ''b'' (Some nameless)) = Some u \<and>
        ((\<not> truthy (User.name u) \<and> \<not> truthy (User.username u)) \<or> User.timeZone u = [])"
    by (simp add: bookingOf_def)
  moreover have "forBookings (envOf None always always) 2880
       [bookingOf 2 ''b'' (Some nameless), bookingOf 3 ''c'' None] (worldOf [] []) 0 =
     (Inr 0, (worldOf [] [])\<lparr>console :=
        [MissingRequiredProperties 2 (Some nameless), MissingRequiredProperties 3 None]\<rparr>)"
  proof -
    let ?b2 = "bookingOf 2 ''b'' (Some nameless)" and ?b3 = "bookingOf 3 ''c'' None"
    let ?w1 = "(worldOf [] [])\<lparr>console := console (worldOf [] []) @
        [MissingRequiredProperties (Booking.id ?b2) (Booking.user ?b2)]\<rparr>"
    note s1 = invalid_organizer_is_skipped [OF h2, of "envOf None always always" 2880
        "[?b3]" "worldOf [] []" 0, THEN conjunct2, THEN conjunct1]
    note s2 = invalid_organizer_is_skipped [OF h3, of "envOf None always always" 2880 "[]"
        ?w1 0, THEN conjunct2, THEN conjunct1]
    show ?thesis
      unfolding s1 s2 forBookings.simps(1) by (simp add: bookingOf_def worldOf_def)
  qed
  ultimately show ?thesis by (rule conjI)
qed

subsection \<open>Failures inside a pass\<close>

text \<open>
  Claim C1, as stated: a failure of the mailer for one booking is caught and logged, and the
  loop continues with the next booking. In the handler nothing catches it: with two bookings
  due at 2880 minutes and a mailer that fails on its first call only, the handler ends with
  the exception and without a response, at the first reading of the clock and the first call
  of the mailer; the second booking gets no mail, and the console stays empty.
\<close>

theorem send_failure_aborts_run_counterexample:
  "handler (envOf (Some ''secret'') notFirst always) (requestOf ''POST'' (Some ''secret''))
       (worldOf [bookingOf 1 ''a'' (Some jane), bookingOf 2 ''b'' (Some jane)] []) =
     (Inl SendFailure,
      (worldOf [bookingOf 1 ''a'' (Some jane), bookingOf 2 ''b'' (Some jane)] [])
        \<lparr>clockReads := 1, sendCalls := 1\<rparr>)"
  by (simp add: run_defs ex_defs)

text \<open>
  Claim C1, amended. A booking without the organizer's properties is logged, not counted,
  and the loop continues with the next booking. A failure of the mailer writes no ledger
  record and does not count the booking, and a failure of the insert, after the mail has been
  sent, writes no record and does not count the booking either; but neither is caught: the
  exception ends the loop at that booking, the pass, the remaining intervals and the handler.
\<close>

theorem per_booking_failures:
  "(\<not> hasRequiredProperties b \<longrightarrow>
      forBookings env interval (b # bs) w n =
        forBookings env interval bs
          (w\<lparr>console := console w @ [MissingRequiredProperties (Booking.id b) (Booking.user b)]\<rparr>) n) \<and>
   (hasRequiredProperties b \<and> \<not> sendOk env (sendCalls w) \<longrightarrow>
      forBookings env interval (b # bs) w n =
        (Inl SendFailure, w\<lparr>sendCalls := Suc (sendCalls w)\<rparr>)) \<and>
   (hasRequiredProperties b \<and> sendOk env (sendCalls w) \<and> \<not> createOk env (createCalls w) \<longrightarrow>
      (\<exists>evt. bookingEvent env b = Some evt \<and>
         forBookings env interval (b # bs) w n =
           (Inl LedgerWriteFailure,
            w\<lparr>sendCalls := Suc (sendCalls w), outbox := outbox w @ [evt],
              createCalls := Suc (createCalls w)\<rparr>))) \<and>
   (forInterval env interval w n = (Inl e, w') \<longrightarrow>
      forIntervals env (interval # rest) w n = (Inl e, w')) \<and>
   (forIntervals env reminderIntervalMinutes w 0 = (Inl e, w') \<and>
    \<not> strictNotEqual (CRON_API_KEY env) (requestApiKey req) \<and> method' req = Some ''POST'' \<longrightarrow>
      handler env req w = (Inl e, w'))"
proof (intro conjI impI)
  assume "\<not> hasRequiredProperties b"
  then show "forBookings env interval (b # bs) w n =
        forBookings env interval bs
          (w\<lparr>console := console w @ [MissingRequiredProperties (Booking.id b) (Booking.user b)]\<rparr>) n"
    by (rule forBookings_skip)
next
  assume a: "hasRequiredProperties b \<and> \<not> sendOk env (sendCalls w)"
  then obtain evt where "bookingEvent env b = Some evt"
    using bookingEvent_None_iff [of env b] by auto
  from forBookings_send [OF this, of interval bs w n] a
  show "forBookings env interval (b # bs) w n =
        (Inl SendFailure, w\<lparr>sendCalls := Suc (sendCalls w)\<rparr>)" by simp
next
  assume a: "hasRequiredProperties b \<and> sendOk env (sendCalls w) \<and> \<not> createOk env (createCalls w)"
  then obtain evt where evt: "bookingEvent env b = Some evt"
    using bookingEvent_None_iff [of env b] by auto
  from forBookings_send [OF this, of interval bs w n] a
  have "forBookings env interval (b # bs) w n =
           (Inl LedgerWriteFailure,
            w\<lparr>sendCalls := Suc (sendCalls w), outbox := outbox w @ [evt],
              createCalls := Suc (createCalls w)\<rparr>)" by simp
  with evt show "\<exists>evt. bookingEvent env b = Some evt \<and>
         forBookings env interval (b # bs) w n =
           (Inl LedgerWriteFailure,
            w\<lparr>sendCalls := Suc (sendCalls w), outbox := outbox w @ [evt],
              createCalls := Suc (createCalls w)\<rparr>)" by blast
next
  assume "forInterval env interval w n = (Inl e, w')"
  then show "forIntervals env (interval # rest) w n = (Inl e, w')" by simp
next
  assume "forIntervals env reminderIntervalMinutes w 0 = (Inl e, w') \<and>
    \<not> strictNotEqual (CRON_API_KEY env) (requestApiKey req) \<and> method' req = Some ''POST''"
  then show "handler env req w = (Inl e, w')" by (simp add: handler_def)
qed


theorem per_booking_failures_witness:
  "forBookings (envOf None always always) 2880
       [bookingOf 3 ''c'' None, bookingOf 1 ''a'' (Some jane)] (worldOf [] []) 0 =
     forBookings (envOf None always always) 2880 [bookingOf 1 ''a'' (Some jane)]
       ((worldOf [] [])\<lparr>console := [MissingRequiredProperties 3 None]\<rparr>) 0 \<and>
   forBookings (envOf None notFirst always) 2880
       [bookingOf 1 ''a'' (Some jane), bookingOf 2 ''b'' (Some jane)] (worldOf [] []) 0 =
     (Inl SendFailure, (worldOf [] [])\<lparr>sendCalls := 1\<rparr>) \<and>
   (\<exists>evt. bookingEvent (envOf None always notFirst) (bookingOf 1 ''a'' (Some jane)) = Some evt \<and>
      forBookings (envOf None always notFirst) 2880
          [bookingOf 1 ''a'' (Some jane), bookingOf 2 ''b'' (Some jane)] (worldOf [] []) 0 =
        (Inl LedgerWriteFailure,
         (worldOf [] [])\<lparr>sendCalls := 1, outbox := [evt], createCalls := 1\<rparr>)) \<and>
   forIntervals (envOf (Some ''secret'') notFirst always) (2880 # [1440, 180])
       (worldOf [bookingOf 1 ''a'' (Some jane), bookingOf 2 ''b'' (Some jane)] []) 0 =
     (Inl SendFailure,
      (worldOf [bookingOf 1 ''a'' (Some jane), bookingOf 2 ''b'' (Some jane)] [])
        \<lparr>clockReads := 1, sendCalls := 1\<rparr>) \<and>
   handler (envOf (Some ''secret'') notFirst always) (requestOf ''POST'' (Some ''secret''))
       (worldOf [bookingOf 1 ''a'' (Some jane), bookingOf 2 ''b'' (Some jane)] []) =
     (Inl SendFailure,
      (worldOf [bookingOf 1 ''a'' (Some jane), bookingOf 2 ''b'' (Some jane)] [])
        \<lparr>clockReads := 1, sendCalls := 1\<rparr>)"
proof -
  let ?b1 = "bookingOf 1 ''a'' (Some jane)" and ?b2 = "bookingOf 2 ''b'' (Some jane)"
  let ?b3 = "bookingOf 3 ''c'' None"
  let ?w0 = "worldOf [] []" and ?w2 = "worldOf [?b1, ?b2] []"
  let ?w2' = "?w2\<lparr>clockReads := 1, sendCalls := 1\<rparr>"
  let ?mail = "envOf (Some ''secret'') notFirst always"
  let ?req = "requestOf ''POST'' (Some ''secret'')"
  have v1: "hasRequiredProperties ?b1"
    by (simp add: hasRequiredProperties_def bookingOf_def jane_def organizerName_def or_js_def
        truthy_def)
  have v3: "\<not> hasRequiredProperties ?b3"
    by (simp add: hasRequiredProperties_def bookingOf_def)
  have c1: "forBookings (envOf None always always) 2880 [?b3, ?b1] ?w0 0 =
      forBookings (envOf None always always) 2880 [?b1]
        (?w0\<lparr>console := [MissingRequiredProperties 3 None]\<rparr>) 0"
    using per_booking_failures [of ?b3 "envOf None always always" 2880 "[?b1]" ?w0 0,
        THEN conjunct1, THEN mp, OF v3]
    by (simp add: bookingOf_def worldOf_def del: forBookings.simps)
  have s2: "hasRequiredProperties ?b1 \<and>
      \<not> sendOk (envOf None notFirst always) (sendCalls ?w0)"
    using v1 by (simp add: envOf_def notFirst_def worldOf_def)
  have c2: "forBookings (envOf None notFirst always) 2880 [?b1, ?b2] ?w0 0 =
      (Inl SendFailure, ?w0\<lparr>sendCalls := 1\<rparr>)"
    using per_booking_failures [of ?b1 "envOf None notFirst always" 2880 "[?b2]" ?w0 0,
        THEN conjunct2, THEN conjunct1, THEN mp, OF s2]
    by (simp add: worldOf_def del: forBookings.simps)
  have s3: "hasRequiredProperties ?b1 \<and>
      sendOk (envOf None always notFirst) (sendCalls ?w0) \<and>
      \<not> createOk (envOf None always notFirst) (createCalls ?w0)"
    using v1 by (simp add: envOf_def notFirst_def always_def worldOf_def)
  have c3: "\<exists>evt. bookingEvent (envOf None always notFirst) ?b1 = Some evt \<and>
      forBookings (envOf None always notFirst) 2880 [?b1, ?b2] ?w0 0 =
        (Inl LedgerWriteFailure, ?w0\<lparr>sendCalls := 1, outbox := [evt], createCalls := 1\<rparr>)"
    using per_booking_failures [of ?b1 "envOf None always notFirst" 2880 "[?b2]" ?w0 0,
        THEN conjunct2, THEN conjunct2, THEN conjunct1, THEN mp, OF s3]
    by (simp add: worldOf_def del: forBookings.simps)
  have pass: "forInterval ?mail 2880 ?w2 0 = (Inl SendFailure, ?w2')"
    by (simp add: run_defs ex_defs)
  note c4 = per_booking_failures [of _ ?mail 2880 _ ?w2 0 SendFailure ?w2' "[1440, 180]",
      THEN conjunct2, THEN conjunct2, THEN conjunct2, THEN conjunct1, THEN mp, OF pass]
  have s5: "forIntervals ?mail reminderIntervalMinutes ?w2 0 = (Inl SendFailure, ?w2') \<and>
      \<not> strictNotEqual (CRON_API_KEY ?mail) (requestApiKey ?req) \<and> method' ?req = Some ''POST''"
    using c4 by (simp add: reminderIntervalMinutes_def strictNotEqual_def requestApiKey_def
        envOf_def requestOf_def del: forIntervals.simps)
  note c5 = per_booking_failures [of _ ?mail _ _ ?w2 _ SendFailure ?w2' _ ?req,
      THEN conjunct2, THEN conjunct2, THEN conjunct2, THEN conjunct2, THEN mp, OF s5]
  from c1 c2 c3 c4 c5 show ?thesis by (intro conjI)
qed

subsection \<open>Runs of the whole handler\<close>

text \<open>
  Claim C4. If a run of the handler has answered 200 and the handler is run again on the
  world the first run left, with the clock not advanced (every reading gives the same time)
  and the booking table as it was, then the second run answers 200 with
  \<open>notificationsSent = 0\<close>, makes no call of the mailer and leaves the ledger and the sent
  mails unchanged, whatever the mailer and the insert would do.
\<close>

theorem second_run_sends_nothing:
  assumes "handler env req w = (Inr (Response 200 (NotificationsSent k)), w1)"
    and "\<forall>i. now env i = t"
  shows "\<exists>w2. handler env req w1 = (Inr (Response 200 (NotificationsSent 0)), w2) \<and>
           reminderMail w2 = reminderMail w1 \<and> outbox w2 = outbox w1 \<and>
           sendCalls w2 = sendCalls w1"
proof -
  from assms(1) have auth: "\<not> strictNotEqual (CRON_API_KEY env) (requestApiKey req)"
    and post: "method' req = Some ''POST''"
    by (auto simp: handler_def split: if_splits prod.splits sum.splits)
  with assms(1) have run: "forIntervals env reminderIntervalMinutes w 0 = (Inr k, w1)"
    by (auto simp: handler_def split: prod.splits sum.splits)
  from forIntervals_settles [OF run assms(2)]
  have "\<forall>interval \<in> set reminderIntervalMinutes. settled w1 t interval" .
  from forIntervals_settled [OF assms(2) this, of 0] obtain w2 where
    "forIntervals env reminderIntervalMinutes w1 0 = (Inr 0, w2)"
    "reminderMail w2 = reminderMail w1" "outbox w2 = outbox w1" "sendCalls w2 = sendCalls w1"
    by auto
  with auth post show ?thesis by (simp add: handler_def)
qed

theorem second_run_sends_nothing_witness:
  "fst (handler (envOf (Some ''secret'') always always) (requestOf ''POST'' (Some ''secret''))
          (worldOf [bookingOf 1 ''a'' (Some jane), bookingOf 2 ''b'' (Some nameless)] [])) =
     Inr (Response 200 (NotificationsSent 1)) \<and>
   fst (handler (envOf (Some ''secret'') always always) (requestOf ''POST'' (Some ''secret''))
          (snd (handler (envOf (Some ''secret'') always always)
                  (requestOf ''POST'' (Some ''secret''))
                  (worldOf [bookingOf 1 ''a'' (Some jane), bookingOf 2 ''b'' (Some nameless)] [])))) =
     Inr (Response 200 (NotificationsSent 0))"
proof -
  let ?env = "envOf (Some ''secret'') always always"
  let ?req = "requestOf ''POST'' (Some ''secret'')"
  let ?w = "worldOf [bookingOf 1 ''a'' (Some jane), bookingOf 2 ''b'' (Some nameless)] []"
  have first: "fst (handler ?env ?req ?w) = Inr (Response 200 (NotificationsSent 1))"
    by (simp add: run_defs ex_defs del: set_filter)
  then have run: "handler ?env ?req ?w =
      (Inr (Response 200 (NotificationsSent 1)), snd (handler ?env ?req ?w))"
    by (metis prod.collapse)
  have clock: "\<forall>i. now ?env i = 180000000" by (simp add: envOf_def fiftyHours_def)
  from second_run_sends_nothing [OF run clock] first show ?thesis by auto
qed

text \<open>
  Claim C9. The intervals are iterated in descending order, and within one run of the
  handler, however it ends, the mails it sends carry pairwise different booking uids: every
  booking of the table gets at most one notification, also when it is old enough for several
  intervals. The uids of the table are unique, as the database schema makes them.
\<close>

theorem at_most_one_notification_per_run:
  assumes "handler env req w = (r, w')" and "distinct (map Booking.uid (booking w))"
  shows "sorted_wrt (\<ge>) reminderIntervalMinutes \<and>
         (\<exists>new. outbox w' = outbox w @ new \<and> distinct (map CalendarEvent.uid new) \<and>
           (\<forall>b \<in> set (booking w).
              length (filter (\<lambda>evt. CalendarEvent.uid evt = Booking.uid b) new) \<le> 1))"
proof -
  have sorted: "sorted_wrt (\<ge>) reminderIntervalMinutes"
    by (simp add: reminderIntervalMinutes_def)
  obtain r0 w0 where run: "forIntervals env reminderIntervalMinutes w 0 = (r0, w0)"
    by (cases "forIntervals env reminderIntervalMinutes w 0")
  from forIntervals_sent [OF run sorted assms(2)] obtain sent where
    out: "outbox w0 = outbox w @ List.map_filter (bookingEvent env) sent"
    and d: "distinct (map Booking.uid sent)" by auto
  have dn: "distinct (map CalendarEvent.uid (List.map_filter (bookingEvent env) sent))"
    using d by (simp add: uid_events distinct_map_filter)
  have cnt: "length (filter (\<lambda>evt. CalendarEvent.uid evt = u) new) \<le> 1"
    if "distinct (map CalendarEvent.uid new)" for u and new :: "CalendarEvent list"
    using that by (induction new) (auto simp: filter_empty_conv image_iff)
  consider "w' = w" | "w' = w0"
    using assms(1) run by (auto simp: handler_def split: if_splits sum.splits)
  then have "\<exists>new. outbox w' = outbox w @ new \<and> distinct (map CalendarEvent.uid new) \<and>
           (\<forall>b \<in> set (booking w).
              length (filter (\<lambda>evt. CalendarEvent.uid evt = Booking.uid b) new) \<le> 1)"
  proof cases
    case 1
    have "outbox w' = outbox w @ []" using 1 by simp
    then show ?thesis by (intro exI [of _ "[]"]) simp
  next
    case 2
    with out dn cnt [OF dn] show ?thesis
      by (intro exI [of _ "List.map_filter (bookingEvent env) sent"]) simp
  qed
  with sorted show ?thesis by simp
qed

theorem at_most_one_notification_per_run_witness:
  "distinct (map Booking.uid (booking (worldOf [bookingOf 1 ''a'' (Some jane), bookingOf 2 ''b'' (Some jane)] []))) \<and>
   map CalendarEvent.uid (outbox (snd (handler (envOf (Some ''secret'') always always)
       (requestOf ''POST'' (Some ''secret''))
       (worldOf [bookingOf 1 ''a'' (Some jane), bookingOf 2 ''b'' (Some jane)] [])))) = [''a'', ''b''] \<and>
   (\<exists>new. outbox (snd (handler (envOf (Some ''secret'') always always)
       (requestOf ''POST'' (Some ''secret''))
       (worldOf [bookingOf 1 ''a'' (Some jane), bookingOf 2 ''b'' (Some jane)] []))) =
         outbox (worldOf [bookingOf 1 ''a'' (Some jane), bookingOf 2 ''b'' (Some jane)] []) @ new \<and>
       distinct (map CalendarEvent.uid new) \<and>
       (\<forall>b \<in> set (booking (worldOf [bookingOf 1 ''a'' (Some jane), bookingOf 2 ''b'' (Some jane)] [])).
          length (filter (\<lambda>evt. CalendarEvent.uid evt = Booking.uid b) new) \<le> 1))"
proof -
  let ?env = "envOf (Some ''secret'') always always"
  let ?req = "requestOf ''POST'' (Some ''secret'')"
  let ?w = "worldOf [bookingOf 1 ''a'' (Some jane), bookingOf 2 ''b'' (Some jane)] []"
  have d: "distinct (map Booking.uid (booking ?w))"
    by (simp add: worldOf_def bookingOf_def)
  have run: "handler ?env ?req ?w = (fst (handler ?env ?req ?w), snd (handler ?env ?req ?w))"
    by simp
  have uids: "map CalendarEvent.uid (outbox (snd (handler ?env ?req ?w))) = [''a'', ''b'']"
    by (simp add: run_defs ex_defs calendarEvent_def del: set_filter)
  from at_most_one_notification_per_run [OF run d, THEN conjunct2] d uids
  show ?thesis by (intro conjI)
qed

text \<open>
  Claim C3, as stated: every permutation of the interval list gives the same notifications
  and the same final ledger. With one booking created 50 hours ago and an empty ledger, the
  list \<open>[2880, 1440, 180]\<close> sends one notification and writes one record, the ascending
  permutation \<open>[180, 1440, 2880]\<close> sends three and writes three: a record at 180 does not
  suppress the pass at 1440, nor one at 1440 the pass at 2880.
\<close>

theorem ascending_order_repeats_notification_counterexample:
  "mset [180, 1440, 2880] = mset reminderIntervalMinutes \<and>
   fst (forIntervals (envOf None always always) reminderIntervalMinutes
          (worldOf [bookingOf 1 ''a'' (Some jane)] []) 0) = Inr 1 \<and>
   fst (forIntervals (envOf None always always) [180, 1440, 2880]
          (worldOf [bookingOf 1 ''a'' (Some jane)] []) 0) = Inr 3 \<and>
   reminderMail (snd (forIntervals (envOf None always always) reminderIntervalMinutes
          (worldOf [bookingOf 1 ''a'' (Some jane)] []) 0)) =
     [reminderRecord 2880 (bookingOf 1 ''a'' (Some jane))] \<and>
   reminderMail (snd (forIntervals (envOf None always always) [180, 1440, 2880]
          (worldOf [bookingOf 1 ''a'' (Some jane)] []) 0)) =
     [reminderRecord 180 (bookingOf 1 ''a'' (Some jane)),
      reminderRecord 1440 (bookingOf 1 ''a'' (Some jane)),
      reminderRecord 2880 (bookingOf 1 ''a'' (Some jane))] \<and>
   set (reminderMail (snd (forIntervals (envOf None always always) [180, 1440, 2880]
          (worldOf [bookingOf 1 ''a'' (Some jane)] []) 0))) \<noteq>
   set (reminderMail (snd (forIntervals (envOf None always always) reminderIntervalMinutes
          (worldOf [bookingOf 1 ''a'' (Some jane)] []) 0)))"
  by (simp add: run_defs ex_defs del: set_filter)

text \<open>
  Claim C3, amended. When no call of the mailer or of the insert fails, the clock does not
  advance during the run and the booking ids are unique, every permutation of the interval
  list completes and sends the same set of payloads as the list of the handler: the same
  bookings are notified. How often each is notified and which records the ledger holds in
  the end depend on the order.
\<close>

theorem order_independent_payloads:
  assumes "\<forall>k. sendOk env k \<and> createOk env k" and "\<forall>k. now env k = t"
    and "distinct (map Booking.id (booking w))"
    and "mset ts' = mset reminderIntervalMinutes"
  shows "\<exists>n1 w1 n2 w2.
           forIntervals env reminderIntervalMinutes w 0 = (Inr n1, w1) \<and>
           forIntervals env ts' w 0 = (Inr n2, w2) \<and>
           set (drop (length (outbox w)) (outbox w1)) = set (drop (length (outbox w)) (outbox w2))"
proof -
  from forIntervals_notified [OF assms(1-3), of reminderIntervalMinutes 0]
  obtain n1 w1 sent1 where r1: "forIntervals env reminderIntervalMinutes w 0 = (Inr n1, w1)"
    and o1: "outbox w1 = outbox w @ List.map_filter (bookingEvent env) sent1"
    and s1: "set sent1 = due w t reminderIntervalMinutes" by blast
  from forIntervals_notified [OF assms(1-3), of ts' 0]
  obtain n2 w2 sent2 where r2: "forIntervals env ts' w 0 = (Inr n2, w2)"
    and o2: "outbox w2 = outbox w @ List.map_filter (bookingEvent env) sent2"
    and s2: "set sent2 = due w t ts'" by blast
  from assms(4) have "set ts' = set reminderIntervalMinutes" by (rule mset_eq_setD)
  then have "due w t ts' = due w t reminderIntervalMinutes"
    by (simp add: due_def)
  with s1 s2 have "set sent1 = set sent2" by simp
  then have "set (drop (length (outbox w)) (outbox w1)) = set (drop (length (outbox w)) (outbox w2))"
    by (simp add: o1 o2 set_events)
  with r1 r2 show ?thesis by blast
qed

theorem order_independent_payloads_witness:
  "(\<forall>k. sendOk (envOf None always always) k \<and> createOk (envOf None always always) k) \<and>
   (\<forall>k. now (envOf None always always) k = 180000000) \<and>
   distinct (map Booking.id (booking (worldOf [bookingOf 1 ''a'' (Some jane), bookingOf 2 ''b'' (Some nameless)] []))) \<and>
   mset [180, 1440, 2880] = mset reminderIntervalMinutes \<and>
   (\<exists>n1 w1 n2 w2.
      forIntervals (envOf None always always) reminderIntervalMinutes
          (worldOf [bookingOf 1 ''a'' (Some jane), bookingOf 2 ''b'' (Some nameless)] []) 0 = (Inr n1, w1) \<and>
      forIntervals (envOf None always always) [180, 1440, 2880]
          (worldOf [bookingOf 1 ''a'' (Some jane), bookingOf 2 ''b'' (Some nameless)] []) 0 = (Inr n2, w2) \<and>
      set (drop (length (outbox (worldOf [bookingOf 1 ''a'' (Some jane), bookingOf 2 ''b'' (Some nameless)] [])))
             (outbox w1)) =
      set (drop (length (outbox (worldOf [bookingOf 1 ''a'' (Some jane), bookingOf 2 ''b'' (Some nameless)] [])))
             (outbox w2)))"
proof -
  let ?env = "envOf None always always"
  let ?w = "worldOf [bookingOf 1 ''a'' (Some jane), bookingOf 2 ''b'' (Some nameless)] []"
  have ok: "\<forall>k. sendOk ?env k \<and> createOk ?env k" by (simp add: envOf_def always_def)
  have clock: "\<forall>k. now ?env k = 180000000" by (simp add: envOf_def fiftyHours_def)
  have ids: "distinct (map Booking.id (booking ?w))" by (simp add: worldOf_def bookingOf_def)
  have perm: "mset [180, 1440, 2880] = mset reminderIntervalMinutes"
    by (simp add: reminderIntervalMinutes_def)
  from order_independent_payloads [OF ok clock ids perm] ok clock ids perm
  show ?thesis by (intro conjI)
qed

subsection \<open>The fields of the payload\<close>

lemma calendarEvent_fields:
  "CalendarEvent.type (calendarEvent pick b u nm) = Booking.title b"
  "CalendarEvent.title (calendarEvent pick b u nm) = Booking.title b"
  "CalendarEvent.description (calendarEvent pick b u nm) =
     (if truthy (Booking.description b) then Booking.description b else None)"
  "CalendarEvent.customInputs (calendarEvent pick b u nm) =
     isPrismaObjOrUndefined (Booking.customInputs b)"
  "CalendarEvent.location (calendarEvent pick b u nm) = nullish (Booking.location b) []"
  "CalendarEvent.startTime (calendarEvent pick b u nm) = toISOString (Booking.startTime b)"
  "CalendarEvent.endTime (calendarEvent pick b u nm) = toISOString (Booking.endTime b)"
  "Person.name (CalendarEvent.organizer (calendarEvent pick b u nm)) = nm"
  "Language.locale' (Person.language (CalendarEvent.organizer (calendarEvent pick b u nm))) =
     nullish (User.locale' u) ''en''"
  "CalendarEvent.attendees (calendarEvent pick b u nm) = map attendeePerson (Booking.attendees b)"
  "CalendarEvent.uid (calendarEvent pick b u nm) = Booking.uid b"
  "CalendarEvent.destinationCalendar (calendarEvent pick b u nm) =
     (case Booking.destinationCalendar b of Some c \<Rightarrow> Some c | None \<Rightarrow> User.destinationCalendar u)"
  by (simp_all add: calendarEvent_def Promise_all_order)

text \<open>
  Claim C8. For a booking that passes the organizer check, with organizer \<open>u\<close> and
  payload \<open>evt\<close>: type and title are the booking's title; the description is omitted
  when the booking has none; custom inputs are present only for a key/value object, and then
  are that object; the location is the empty string when the booking has none; start and end
  are the ISO-8601 strings of the booking's instants (which lie in the range of a JavaScript
  \<^verbatim>\<open>Date\<close>); the locales of the organizer and of the attendees are "en" when unset; and
  the destination calendar is the booking's own when it has one, else the organizer's.
\<close>

theorem payload_fields:
  assumes "bookingEvent env b = Some evt" and "Booking.user b = Some u"
    and "\<bar>Booking.startTime b\<bar> \<le> 8640000000000000"
    and "\<bar>Booking.endTime b\<bar> \<le> 8640000000000000"
  shows "CalendarEvent.type evt = Booking.title b \<and>
     CalendarEvent.title evt = Booking.title b \<and>
     CalendarEvent.uid evt = Booking.uid b \<and>
     (Booking.description b = None \<longrightarrow> CalendarEvent.description evt = None) \<and>
     (truthy (Booking.description b) \<longrightarrow> CalendarEvent.description evt = Booking.description b) \<and>
     (CalendarEvent.customInputs evt \<noteq> None \<longrightarrow>
        (\<exists>kvs. Booking.customInputs b = JsonObject kvs)) \<and>
     (\<forall>kvs. Booking.customInputs b = JsonObject kvs \<longrightarrow>
        CalendarEvent.customInputs evt = Some (JsonObject kvs)) \<and>
     (Booking.location b = None \<longrightarrow> CalendarEvent.location evt = []) \<and>
     (\<forall>l. Booking.location b = Some l \<longrightarrow> CalendarEvent.location evt = l) \<and>
     CalendarEvent.startTime evt = toISOString (Booking.startTime b) \<and>
     CalendarEvent.endTime evt = toISOString (Booking.endTime b) \<and>
     isISO8601 (CalendarEvent.startTime evt) \<and>
     isISO8601 (CalendarEvent.endTime evt) \<and>
     (User.locale' u = None \<longrightarrow>
        Language.locale' (Person.language (CalendarEvent.organizer evt)) = ''en'') \<and>
     (\<forall>l. User.locale' u = Some l \<longrightarrow>
        Language.locale' (Person.language (CalendarEvent.organizer evt)) = l) \<and>
     map (Language.locale' \<circ> Person.language) (CalendarEvent.attendees evt) =
       map (\<lambda>a. case Attendee.locale' a of None \<Rightarrow> ''en'' | Some l \<Rightarrow> l) (Booking.attendees b) \<and>
     (\<forall>c. Booking.destinationCalendar b = Some c \<longrightarrow>
        CalendarEvent.destinationCalendar evt = Some c) \<and>
     (Booking.destinationCalendar b = None \<longrightarrow>
        CalendarEvent.destinationCalendar evt = User.destinationCalendar u)"
proof -
  from assms(1,2) obtain nm where
    evt: "evt = calendarEvent (settleOrder env (Booking.id b)) b u nm"
    by (auto simp: bookingEvent_def split: option.splits if_splits)
  from assms(3) have iso1: "isISO8601 (toISOString (Booking.startTime b))"
    by (intro toISOString_iso) linarith+
  from assms(4) have iso2: "isISO8601 (toISOString (Booking.endTime b))"
    by (intro toISOString_iso) linarith+
  note sel = evt calendarEvent_fields
  have "CalendarEvent.customInputs evt \<noteq> None \<longrightarrow>
        (\<exists>kvs. Booking.customInputs b = JsonObject kvs)"
    by (cases "Booking.customInputs b") (simp_all add: sel isPrismaObjOrUndefined_def)
  moreover have "\<forall>kvs. Booking.customInputs b = JsonObject kvs \<longrightarrow>
        CalendarEvent.customInputs evt = Some (JsonObject kvs)"
    by (simp add: sel isPrismaObjOrUndefined_def)
  moreover have "map (Language.locale' \<circ> Person.language) (CalendarEvent.attendees evt) =
       map (\<lambda>a. case Attendee.locale' a of None \<Rightarrow> ''en'' | Some l \<Rightarrow> l) (Booking.attendees b)"
    by (simp add: sel attendeePerson_def comp_def nullish_def)
  moreover have "\<forall>c. Booking.destinationCalendar b = Some c \<longrightarrow>
        CalendarEvent.destinationCalendar evt = Some c"
    and "Booking.destinationCalendar b = None \<longrightarrow>
        CalendarEvent.destinationCalendar evt = User.destinationCalendar u"
    by (simp_all add: sel)
  moreover have "Booking.description b = None \<longrightarrow> CalendarEvent.description evt = None"
    and "truthy (Booking.description b) \<longrightarrow> CalendarEvent.description evt = Booking.description b"
    by (simp_all add: sel truthy_def)
  moreover have "Booking.location b = None \<longrightarrow> CalendarEvent.location evt = []"
    and "\<forall>l. Booking.location b = Some l \<longrightarrow> CalendarEvent.location evt = l"
    by (simp_all add: sel nullish_def)
  moreover have "User.locale' u = None \<longrightarrow>
        Language.locale' (Person.language (CalendarEvent.organizer evt)) = ''en''"
    and "\<forall>l. User.locale' u = Some l \<longrightarrow>
        Language.locale' (Person.language (CalendarEvent.organizer evt)) = l"
    by (simp_all add: sel nullish_def)
  moreover have "CalendarEvent.type evt = Booking.title b" "CalendarEvent.title evt = Booking.title b"
    "CalendarEvent.uid evt = Booking.uid b"
    "CalendarEvent.startTime evt = toISOString (Booking.startTime b)"
    "CalendarEvent.endTime evt = toISOString (Booking.endTime b)"
    by (simp_all add: sel)
  moreover from this(4,5) iso1 iso2 have "isISO8601 (CalendarEvent.startTime evt)"
    "isISO8601 (CalendarEvent.endTime evt)" by simp_all
  ultimately show ?thesis by (intro conjI)
qed

theorem payload_fields_witness:
  "bookingEvent (envOf None always always) (bookingOf 1 ''a'' (Some jane)) =
     Some (calendarEvent (lastFirst 1) (bookingOf 1 ''a'' (Some jane)) jane ''Jane'') \<and>
   \<bar>Booking.startTime (bookingOf 1 ''a'' (Some jane))\<bar> \<le> 8640000000000000 \<and>
   \<bar>Booking.endTime (bookingOf 1 ''a'' (Some jane))\<bar> \<le> 8640000000000000 \<and>
   Booking.description (bookingOf 1 ''a'' (Some jane)) = None \<and>
   Booking.location (bookingOf 1 ''a'' (Some jane)) = None \<and>
   User.locale' jane = None \<and>
   CalendarEvent.description (calendarEvent (lastFirst 1) (bookingOf 1 ''a'' (Some jane)) jane ''Jane'') = None \<and>
   CalendarEvent.location (calendarEvent (lastFirst 1) (bookingOf 1 ''a'' (Some jane)) jane ''Jane'') = [] \<and>
   CalendarEvent.customInputs (calendarEvent (lastFirst 1) (bookingOf 1 ''a'' (Some jane)) jane ''Jane'') =
     Some (JsonObject [(''topic'', JsonString ''pricing'')]) \<and>
   isISO8601 (CalendarEvent.startTime (calendarEvent (lastFirst 1) (bookingOf 1 ''a'' (Some jane)) jane ''Jane'')) \<and>
   isISO8601 (CalendarEvent.endTime (calendarEvent (lastFirst 1) (bookingOf 1 ''a'' (Some jane)) jane ''Jane'')) \<and>
   Language.locale' (Person.language (CalendarEvent.organizer
     (calendarEvent (lastFirst 1) (bookingOf 1 ''a'' (Some jane)) jane ''Jane''))) = ''en'' \<and>
   map (Language.locale' \<circ> Person.language) (CalendarEvent.attendees
     (calendarEvent (lastFirst 1) (bookingOf 1 ''a'' (Some jane)) jane ''Jane'')) =
     [''en'', ''fr'', ''es'', ''en'']"
proof -
  let ?b = "bookingOf 1 ''a'' (Some jane)"
  let ?evt = "calendarEvent (lastFirst 1) ?b jane ''Jane''"
  have e: "bookingEvent (envOf None always always) ?b = Some ?evt"
    by (simp add: bookingEvent_def bookingOf_def jane_def organizerName_def or_js_def truthy_def
        envOf_def)
  have s: "\<bar>Booking.startTime ?b\<bar> \<le> 8640000000000000"
    and t: "\<bar>Booking.endTime ?b\<bar> \<le> 8640000000000000"
    by (simp_all add: bookingOf_def)
  have facts: "Booking.user ?b = Some jane" "Booking.description ?b = None"
    "Booking.location ?b = None" "User.locale' jane = None"
    "Booking.customInputs ?b = JsonObject [(''topic'', JsonString ''pricing'')]"
    "map (\<lambda>a. case Attendee.locale' a of None \<Rightarrow> ''en'' | Some l \<Rightarrow> l) (Booking.attendees ?b) =
       [''en'', ''fr'', ''es'', ''en'']"
    by (simp_all add: bookingOf_def jane_def guests_def)
  note inst = payload_fields [OF e facts(1) s t]
  have iso: "isISO8601 (CalendarEvent.startTime ?evt)" "isISO8601 (CalendarEvent.endTime ?evt)"
    by (insert inst, elim conjE, assumption)+
  from inst facts have "CalendarEvent.description ?evt = None"
    "CalendarEvent.location ?evt = []"
    "CalendarEvent.customInputs ?evt = Some (JsonObject [(''topic'', JsonString ''pricing'')])"
    "Language.locale' (Person.language (CalendarEvent.organizer ?evt)) = ''en''"
    "map (Language.locale' \<circ> Person.language) (CalendarEvent.attendees ?evt) =
       [''en'', ''fr'', ''es'', ''en'']"
    by simp_all
  with iso e s t facts(2,3,4) show ?thesis by (intro conjI)
qed

end
